theory Spec2Isabelle
  imports Main
begin

section \<open>Python strings and dictionaries\<close>

text \<open>
  A Python \<open>str\<close> is a sequence of Unicode code points, so it is modelled as a list of
  natural numbers. \<open>asc\<close> turns an ASCII literal into that form; the few non-ASCII
  literals of the program are written with their code points.
\<close>

type_synonym pystr = "nat list"

definition asc :: "string \<Rightarrow> pystr" where
  "asc s = map of_char s"

text \<open>\<open>s.startswith(p)\<close>\<close>

definition py_startswith :: "pystr \<Rightarrow> pystr \<Rightarrow> bool" where
  "py_startswith s p = (take (length p) s = p)"

text \<open>\<open>s.replace(a, b)\<close> for one-character \<open>a\<close> and \<open>b\<close>\<close>

definition py_replace :: "nat \<Rightarrow> nat \<Rightarrow> pystr \<Rightarrow> pystr" where
  "py_replace a b s = map (\<lambda>c. if c = a then b else c) s"

text \<open>\<open>s.split(sep, 1)\<close> for a one-character separator: at most one split, at the first
  occurrence.\<close>

definition py_split1 :: "nat \<Rightarrow> pystr \<Rightarrow> pystr list" where
  "py_split1 sep s =
     (if sep \<in> set s
      then [takeWhile (\<lambda>c. c \<noteq> sep) s, tl (dropWhile (\<lambda>c. c \<noteq> sep) s)]
      else [s])"

text \<open>\<open>str(i)\<close> and the \<open>{i}\<close> of an f-string for an integer: decimal digits, with a
  minus sign for a negative number.\<close>

fun digits :: "nat \<Rightarrow> pystr" where
  "digits n = (if n < 10 then [48 + n] else digits (n div 10) @ [48 + n mod 10])"

declare digits.simps [simp del]

definition py_str :: "int \<Rightarrow> pystr" where
  "py_str i = (if i < 0 then 45 # digits (nat (- i)) else digits (nat i))"

text \<open>The code points for which \<open>str.isspace\<close> holds; \<open>s.strip()\<close> removes them from
  both ends.\<close>

definition is_whitespace :: "nat \<Rightarrow> bool" where
  "is_whitespace c =
     ((9 \<le> c \<and> c \<le> 13) \<or> (28 \<le> c \<and> c \<le> 32) \<or> c = 133 \<or> c = 160 \<or> c = 5760
      \<or> (8192 \<le> c \<and> c \<le> 8202) \<or> c = 8232 \<or> c = 8233 \<or> c = 8239 \<or> c = 8287
      \<or> c = 12288)"

definition py_strip :: "pystr \<Rightarrow> pystr" where
  "py_strip s = rev (dropWhile is_whitespace (rev (dropWhile is_whitespace s)))"

text \<open>
  Case conversion follows the Unicode character database, which is not part of the
  program. The ASCII range is written out; the rest of the database is a parameter:
  the full lower-case and title-case mappings of a code point and the two properties
  that decide the form of a lower-cased capital sigma (U+03A3).
\<close>

record unicode =
  lower_full :: "nat \<Rightarrow> nat list"
  title_full :: "nat \<Rightarrow> nat list"
  cased :: "nat \<Rightarrow> bool"
  case_ignorable :: "nat \<Rightarrow> bool"

definition to_lower_full :: "unicode \<Rightarrow> nat \<Rightarrow> nat list" where
  "to_lower_full u c =
     (if c < 128 then (if 65 \<le> c \<and> c \<le> 90 then [c + 32] else [c]) else lower_full u c)"

definition to_title_full :: "unicode \<Rightarrow> nat \<Rightarrow> nat list" where
  "to_title_full u c =
     (if c < 128 then (if 97 \<le> c \<and> c \<le> 122 then [c - 32] else [c]) else title_full u c)"

text \<open>A capital sigma becomes the final form U+03C2 when a cased letter precedes it and
  none follows (case-ignorable code points skipped on both sides), U+03C3 otherwise.
  \<open>pre\<close> is the text before the sigma, nearest code point first.\<close>

definition handle_capital_sigma :: "unicode \<Rightarrow> pystr \<Rightarrow> pystr \<Rightarrow> nat" where
  "handle_capital_sigma u pre post =
     (if (case dropWhile (case_ignorable u) pre of [] \<Rightarrow> False | c # _ \<Rightarrow> cased u c)
         \<and> (case dropWhile (case_ignorable u) post of [] \<Rightarrow> True | c # _ \<Rightarrow> \<not> cased u c)
      then 962 else 963)"

definition lower_ucs4 :: "unicode \<Rightarrow> pystr \<Rightarrow> nat \<Rightarrow> pystr \<Rightarrow> nat list" where
  "lower_ucs4 u pre c post =
     (if c = 931 then [handle_capital_sigma u pre post] else to_lower_full u c)"

fun lower_from :: "unicode \<Rightarrow> pystr \<Rightarrow> pystr \<Rightarrow> pystr" where
  "lower_from u pre [] = []"
| "lower_from u pre (c # cs) = lower_ucs4 u pre c cs @ lower_from u (c # pre) cs"

text \<open>\<open>s.lower()\<close>\<close>

definition py_lower :: "unicode \<Rightarrow> pystr \<Rightarrow> pystr" where
  "py_lower u s = lower_from u [] s"

text \<open>\<open>s.capitalize()\<close>: the first code point in title case, the others lower-cased.\<close>

fun py_capitalize :: "unicode \<Rightarrow> pystr \<Rightarrow> pystr" where
  "py_capitalize u [] = []"
| "py_capitalize u (c # cs) = to_title_full u c @ lower_from u [c] cs"

text \<open>
  A \<open>dict\<close> keeps its keys in insertion order: an association list. Assigning to a key
  that is present replaces the value in place, assigning to a new key appends.
\<close>

type_synonym ('k, 'v) dict = "('k \<times> 'v) list"

fun dict_set :: "('k, 'v) dict \<Rightarrow> 'k \<Rightarrow> 'v \<Rightarrow> ('k, 'v) dict" where
  "dict_set [] k v = [(k, v)]"
| "dict_set ((k', v') # d) k v =
     (if k' = k then (k', v) # d else (k', v') # dict_set d k v)"

definition dict_contains :: "('k, 'v) dict \<Rightarrow> 'k \<Rightarrow> bool" where
  "dict_contains d k = (map_of d k \<noteq> None)"

datatype error =
    HTTPException nat pystr
  | KeyError pystr
  | IndexError

text \<open>\<open>d[k]\<close> raises \<open>KeyError\<close> for a missing key; \<open>d.get(k)\<close> is \<open>map_of d k\<close>.\<close>

definition dict_getitem :: "(pystr, 'v) dict \<Rightarrow> pystr \<Rightarrow> error + 'v" where
  "dict_getitem d k = (case map_of d k of None \<Rightarrow> Inl (KeyError k) | Some v \<Rightarrow> Inr v)"

section \<open>The application state and the request models\<close>

record user =
  uid :: pystr
  email :: pystr
  name :: pystr
  plan :: pystr

record state =
  USERS :: "(pystr, user) dict"
  TOKENS :: "(pystr, pystr) dict"

definition init :: state where
  "init = \<lparr>USERS = [], TOKENS = []\<rparr>"

record RegisterIn =
  reg_email :: pystr
  reg_password :: pystr
  reg_name :: pystr

text \<open>Request validation fills in the default of the optional \<open>name\<close> field.\<close>

definition RegisterIn_parse :: "pystr \<Rightarrow> pystr \<Rightarrow> pystr option \<Rightarrow> RegisterIn" where
  "RegisterIn_parse e p n =
     \<lparr>reg_email = e, reg_password = p,
      reg_name = (case n of None \<Rightarrow> asc ''Guest'' | Some x \<Rightarrow> x)\<rparr>"

record LoginIn =
  login_email :: pystr
  login_password :: pystr

record ChatIn =
  message :: pystr
  persona :: "pystr option"

record PurchaseIn =
  purchase_plan :: pystr

record chat_out =
  sender :: pystr
  reply :: pystr
  user_plan :: pystr

section \<open>Helper functions\<close>

text \<open>The token text; \<open>now\<close> is the clock reading \<open>int(time.time() * 1000)\<close>.\<close>

definition token_value :: "int \<Rightarrow> pystr \<Rightarrow> pystr" where
  "token_value now em = asc ''demo_'' @ py_str now @ asc ''_'' @ py_replace 64 95 em"

definition mk_token :: "state \<Rightarrow> int \<Rightarrow> pystr \<Rightarrow> state \<times> pystr" where
  "mk_token s now em =
     (let token = token_value now em
      in (s\<lparr>TOKENS := dict_set (TOKENS s) token em\<rparr>, token))"

definition get_email_from_token :: "state \<Rightarrow> pystr option \<Rightarrow> error + pystr" where
  "get_email_from_token s authorization =
     (case authorization of
        None \<Rightarrow> Inl (HTTPException 401 (asc ''Missing or invalid token''))
      | Some a \<Rightarrow>
          if a = [] \<or> \<not> py_startswith a (asc ''Bearer '')
          then Inl (HTTPException 401 (asc ''Missing or invalid token''))
          else (case py_split1 32 a of
                  _ # token # _ \<Rightarrow>
                    (case map_of (TOKENS s) token of
                       None \<Rightarrow> Inl (HTTPException 401 (asc ''Invalid token''))
                     | Some em \<Rightarrow>
                         if em = [] then Inl (HTTPException 401 (asc ''Invalid token''))
                         else Inr em)
                | _ \<Rightarrow> Inl IndexError))"

section \<open>Endpoints\<close>

definition new_user :: "state \<Rightarrow> pystr \<Rightarrow> pystr \<Rightarrow> user" where
  "new_user s em nm =
     \<lparr>uid = asc ''user_'' @ py_str (int (length (USERS s)) + 1),
      email = em, name = nm, plan = asc ''Free''\<rparr>"

definition token_and_user :: "state \<times> pystr \<Rightarrow> pystr \<Rightarrow> state \<times> (error + pystr \<times> user)" where
  "token_and_user st em =
     (case st of (s, token) \<Rightarrow>
        (case dict_getitem (USERS s) em of
           Inl e \<Rightarrow> (s, Inl e)
         | Inr r \<Rightarrow> (s, Inr (token, r))))"

definition register :: "state \<Rightarrow> int \<Rightarrow> RegisterIn \<Rightarrow> state \<times> (error + pystr \<times> user)" where
  "register s now d =
     (if dict_contains (USERS s) (reg_email d)
      then (s, Inl (HTTPException 409 (asc ''User already exists'')))
      else
        (let s1 = s\<lparr>USERS := dict_set (USERS s) (reg_email d)
                                (new_user s (reg_email d) (reg_name d))\<rparr>
         in token_and_user (mk_token s1 now (reg_email d)) (reg_email d)))"

definition login :: "state \<Rightarrow> int \<Rightarrow> LoginIn \<Rightarrow> state \<times> (error + pystr \<times> user)" where
  "login s now d =
     (let s1 = (if \<not> dict_contains (USERS s) (login_email d)
                then s\<lparr>USERS := dict_set (USERS s) (login_email d)
                                   (new_user s (login_email d) (asc ''Guest''))\<rparr>
                else s)
      in token_and_user (mk_token s1 now (login_email d)) (login_email d))"

definition me :: "state \<Rightarrow> pystr option \<Rightarrow> error + user" where
  "me s authorization =
     (case get_email_from_token s authorization of
        Inl e \<Rightarrow> Inl e
      | Inr em \<Rightarrow> dict_getitem (USERS s) em)"

text \<open>
  \<open>chat_send\<close> suspends at \<open>await asyncio.sleep(1.5)\<close>, and other requests run meanwhile.
  The part before the suspension resolves the token and fixes the persona in the state
  of that moment; the part after it reads the plan in the state of the moment it resumes.
\<close>

definition default_persona :: pystr where
  "default_persona = asc ''Arkada'' @ [351]"

definition reply_suffix :: pystr where
  "reply_suffix =
     asc '' modu: Mesaj'' @ [305] @ asc ''n'' @ [305] @ asc '' ald'' @ [305] @ asc ''m ''
     @ [8212] @ asc '' k'' @ [305] @ asc ''sa demo yan'' @ [305] @ asc ''t.''"

definition chat_send_before :: "unicode \<Rightarrow> state \<Rightarrow> ChatIn \<Rightarrow> pystr option \<Rightarrow> error + pystr \<times> pystr" where
  "chat_send_before u s payload authorization =
     (case get_email_from_token s authorization of
        Inl e \<Rightarrow> Inl e
      | Inr em \<Rightarrow>
          Inr (em, py_lower u (case persona payload of
                                 None \<Rightarrow> default_persona
                               | Some p \<Rightarrow> if p = [] then default_persona else p)))"

definition chat_send_after :: "unicode \<Rightarrow> state \<Rightarrow> pystr \<times> pystr \<Rightarrow> error + chat_out" where
  "chat_send_after u s ep =
     (case ep of (em, persona_lower) \<Rightarrow>
        (case dict_getitem (USERS s) em of
           Inl e \<Rightarrow> Inl e
         | Inr r \<Rightarrow>
             Inr \<lparr>sender = asc ''assistant'',
                  reply = py_capitalize u persona_lower @ reply_suffix,
                  user_plan = plan r\<rparr>))"

text \<open>The whole handler: \<open>s\<close> is the state when the request arrives, \<open>s'\<close> the state
  when the handler resumes after the delay.\<close>

definition chat_send :: "unicode \<Rightarrow> state \<Rightarrow> state \<Rightarrow> ChatIn \<Rightarrow> pystr option \<Rightarrow> error + chat_out" where
  "chat_send u s s' payload authorization =
     (case chat_send_before u s payload authorization of
        Inl e \<Rightarrow> Inl e
      | Inr ep \<Rightarrow> chat_send_after u s' ep)"

definition purchase_confirm :: "unicode \<Rightarrow> state \<Rightarrow> PurchaseIn \<Rightarrow> pystr option \<Rightarrow> state \<times> (error + user)" where
  "purchase_confirm u s d authorization =
     (case get_email_from_token s authorization of
        Inl e \<Rightarrow> (s, Inl e)
      | Inr em \<Rightarrow>
          (let plan_lower = py_lower u (py_strip (purchase_plan d))
           in if plan_lower \<noteq> asc ''plus'' \<and> plan_lower \<noteq> asc ''pro''
              then (s, Inl (HTTPException 400 (asc ''plan must be Plus or Pro'')))
              else
                (case dict_getitem (USERS s) em of
                   Inl e \<Rightarrow> (s, Inl e)
                 | Inr r \<Rightarrow>
                     (let s1 = s\<lparr>USERS := dict_set (USERS s) em
                                   (r\<lparr>plan := (if plan_lower = asc ''plus''
                                                then asc ''Plus'' else asc ''Pro'')\<rparr>)\<rparr>
                      in (s1, dict_getitem (USERS s1) em)))))"

section \<open>Sequences of requests\<close>

text \<open>
  Every handler except \<open>chat_send\<close> runs without suspension, so the stores change one
  request at a time. A request arrives with the clock reading of its moment. The
  handlers that only read (\<open>health\<close>, \<open>me\<close>, \<open>get_plans\<close>, \<open>chat_send\<close>) leave both stores as
  they are.
\<close>

datatype request =
    Health
  | Register RegisterIn
  | Login LoginIn
  | Me "pystr option"
  | Plans
  | ChatSend ChatIn "pystr option"
  | PurchaseConfirm PurchaseIn "pystr option"

fun step :: "unicode \<Rightarrow> state \<Rightarrow> int \<times> request \<Rightarrow> state" where
  "step u s (now, Register d) = fst (register s now d)"
| "step u s (now, Login d) = fst (login s now d)"
| "step u s (now, PurchaseConfirm d a) = fst (purchase_confirm u s d a)"
| "step u s (now, _) = s"

definition run :: "unicode \<Rightarrow> state \<Rightarrow> (int \<times> request) list \<Rightarrow> state" where
  "run u s rs = foldl (step u) s rs"


section \<open>The specification's wording of the chat reply\<close>

text \<open>
  The specification describes the reply as the persona, lower-cased, with its first
  character capitalized, followed by the fixed text " modu: Mesaj\<dots>", which
  \<open>spec_reply\<close> holds code point by code point. \<open>spec_reply\<close> follows these words;
  the handler itself calls \<open>capitalize\<close>, which also lower-cases everything after the
  first character.
\<close>

fun capitalize_first :: "unicode \<Rightarrow> pystr \<Rightarrow> pystr" where
  "capitalize_first u [] = []"
| "capitalize_first u (c # cs) = to_title_full u c @ cs"

definition spec_reply :: "unicode \<Rightarrow> pystr \<Rightarrow> pystr" where
  "spec_reply u p =
     capitalize_first u (py_lower u p)
     @ [32, 109, 111, 100, 117, 58, 32, 77, 101, 115, 97, 106, 305, 110, 305, 32, 97, 108,
        100, 305, 109, 32, 8212, 32, 107, 305, 115, 97, 32, 100, 101, 109, 111, 32, 121, 97,
        110, 305, 116, 46]"

text \<open>
  A code point is fixed by lower-casing when it is not the capital sigma and is its own
  lower-case mapping. In the Unicode database every code point that a lower-case mapping
  produces is fixed in this sense; \<open>lower_stable\<close> states this of the parameter.
\<close>

definition lower_fixed :: "unicode \<Rightarrow> nat \<Rightarrow> bool" where
  "lower_fixed u c = (c \<noteq> 931 \<and> to_lower_full u c = [c])"

definition lower_stable :: "unicode \<Rightarrow> bool" where
  "lower_stable u =
     (lower_fixed u 962 \<and> lower_fixed u 963
      \<and> (\<forall>c. 128 \<le> c \<and> c \<noteq> 931 \<longrightarrow> (\<forall>d \<in> set (lower_full u c). lower_fixed u d)))"

text \<open>A database without case mappings outside ASCII, for running the program on
  concrete requests. It agrees with the Unicode database on the code points that the
  concrete requests below lower-case: ASCII and U+015F.\<close>

definition ascii_db :: unicode where
  "ascii_db =
     \<lparr>lower_full = (\<lambda>c. [c]), title_full = (\<lambda>c. [c]),
      cased = (\<lambda>c. (65 \<le> c \<and> c \<le> 90) \<or> (97 \<le> c \<and> c \<le> 122)),
      case_ignorable = (\<lambda>c. False)\<rparr>"

text \<open>The ids of the stored users in insertion order, and the ids \<open>user_1\<close>, ...,
  \<open>user_n\<close>.\<close>

definition user_ids :: "state \<Rightarrow> pystr list" where
  "user_ids s = map (\<lambda>p. uid (snd p)) (USERS s)"

definition sequential_ids :: "nat \<Rightarrow> pystr list" where
  "sequential_ids n = map (\<lambda>i. asc ''user_'' @ py_str (int i)) [1..<Suc n]"

section \<open>Concrete requests for the examples\<close>

definition alice :: RegisterIn where
  "alice =
     \<lparr>reg_email = asc ''alice@example.com'', reg_password = asc ''pw'',
      reg_name = asc ''Alice''\<rparr>"

definition alice_auth :: "pystr option" where
  "alice_auth = Some (asc ''Bearer demo_1000_alice_example.com'')"

definition bob :: LoginIn where
  "bob = \<lparr>login_email = asc ''bob@example.com'', login_password = asc ''pw''\<rparr>"

definition bob_auth :: "pystr option" where
  "bob_auth = Some (asc ''Bearer demo_1000_bob_example.com'')"

section \<open>Auxiliary facts\<close>

subsection \<open>Dictionaries and token resolution\<close>

lemma map_of_dict_set: "map_of (dict_set d k v) = (map_of d)(k \<mapsto> v)"
  by (induction d) (auto simp: fun_eq_iff)

lemma dict_contains_iff: "dict_contains d k \<longleftrightarrow> k \<in> fst ` set d"
  by (simp add: dict_contains_def map_of_eq_None_iff)

lemma dict_set_absent: "k \<notin> fst ` set d \<Longrightarrow> dict_set d k v = d @ [(k, v)]"
  by (induction d) auto

lemma keys_dict_set:
  "map fst (dict_set d k v) = (if k \<in> fst ` set d then map fst d else map fst d @ [k])"
  by (induction d) fastforce+

lemma length_dict_set:
  "length (dict_set d k v) = (if k \<in> fst ` set d then length d else Suc (length d))"
  by (induction d) fastforce+

lemma dict_set_field:
  "map_of d k = Some r \<Longrightarrow> f v = f r \<Longrightarrow> map (\<lambda>p. f (snd p)) (dict_set d k v) = map (\<lambda>p. f (snd p)) d"
  by (induction d) (auto split: if_splits)

lemma dict_getitem_Inr: "dict_getitem d k = Inr v \<longleftrightarrow> map_of d k = Some v"
  by (simp add: dict_getitem_def split: option.splits)

lemma dict_getitem_dict_set: "dict_getitem (dict_set d k v) k = Inr v"
  by (simp add: dict_getitem_def map_of_dict_set)

lemma Bearer_length: "length (asc ''Bearer '') = 7" "32 \<notin> set (asc ''Bearer'')" "asc ''Bearer '' = asc ''Bearer'' @ [32]"
  by (simp_all add: asc_def)

lemma split_Bearer: "py_split1 32 (asc ''Bearer '' @ t) = [asc ''Bearer'', t]"
  by (simp add: py_split1_def asc_def)

lemma startswith_iff: "py_startswith a p \<longleftrightarrow> (\<exists>t. a = p @ t)"
  unfolding py_startswith_def
  by (metis append_eq_conv_conj append_take_drop_id)

lemma get_email_from_token_Bearer:
  "get_email_from_token s (Some (asc ''Bearer '' @ t)) =
     (case map_of (TOKENS s) t of
        None \<Rightarrow> Inl (HTTPException 401 (asc ''Invalid token''))
      | Some em \<Rightarrow> if em = [] then Inl (HTTPException 401 (asc ''Invalid token'')) else Inr em)"
proof -
  have "py_startswith (asc ''Bearer '' @ t) (asc ''Bearer '')"
    by (simp add: startswith_iff)
  moreover have "asc ''Bearer '' \<noteq> []"
    by (simp add: asc_def)
  ultimately show ?thesis
    by (simp add: get_email_from_token_def split_Bearer)
qed

lemma get_email_from_token_other:
  "(\<forall>t. a \<noteq> Some (asc ''Bearer '' @ t)) \<Longrightarrow>
   get_email_from_token s a = Inl (HTTPException 401 (asc ''Missing or invalid token''))"
  unfolding get_email_from_token_def
  by (auto simp: startswith_iff split: option.splits)

lemma get_email_from_token_Inr:
  "get_email_from_token s a = Inr em \<longleftrightarrow>
     (\<exists>t. a = Some (asc ''Bearer '' @ t) \<and> map_of (TOKENS s) t = Some em \<and> em \<noteq> [])"
proof (cases "\<exists>t. a = Some (asc ''Bearer '' @ t)")
  case True
  then obtain t where a: "a = Some (asc ''Bearer '' @ t)" by blast
  show ?thesis
    by (auto simp: a get_email_from_token_Bearer split: option.splits)
next
  case False
  then show ?thesis
    by (auto simp: get_email_from_token_other)
qed

subsection \<open>Decimal numerals\<close>

lemma digits_range: "c \<in> set (digits n) \<Longrightarrow> 48 \<le> c \<and> c \<le> 57"
proof (induction n rule: digits.induct)
  case (1 n)
  show ?case
  proof (cases "n < 10")
    case True
    with "1.prems" show ?thesis by (simp add: digits.simps [of n])
  next
    case False
    with "1.prems" "1.IH" show ?thesis
      by (auto simp: digits.simps [of n])
  qed
qed

lemma digits_value: "foldl (\<lambda>a c. 10 * a + (c - 48)) 0 (digits n) = n"
proof (induction n rule: digits.induct)
  case (1 n)
  show ?case
  proof (cases "n < 10")
    case True
    then show ?thesis by (simp add: digits.simps [of n])
  next
    case False
    with "1.IH" show ?thesis
      by (simp add: digits.simps [of n])
  qed
qed

lemma digits_inj: "digits m = digits n \<Longrightarrow> m = n"
  by (metis digits_value)

lemma digits_nonempty: "digits n \<noteq> []"
  by (simp add: digits.simps [of n])

lemma py_str_inj: "py_str i = py_str j \<Longrightarrow> i = j"
proof -
  assume eq: "py_str i = py_str j"
  have no_minus: "hd (digits n) \<noteq> 45" for n
    using digits_range [of "hd (digits n)" n] digits_nonempty [of n] hd_in_set [of "digits n"]
    by fastforce
  have neq: "45 # digits m \<noteq> digits n" for m n
    using no_minus [of n] by (metis list.sel(1))
  show ?thesis
  proof (cases "i < 0"; cases "j < 0")
    assume "i < 0" "j < 0"
    with eq have "nat (- i) = nat (- j)" by (simp add: py_str_def digits_inj)
    with \<open>i < 0\<close> \<open>j < 0\<close> show ?thesis by simp
  next
    assume "i < 0" "\<not> j < 0"
    with eq neq show ?thesis by (simp add: py_str_def)
  next
    assume "\<not> i < 0" "j < 0"
    with eq neq [of "nat (- j)" "nat i"] show ?thesis by (simp add: py_str_def)
  next
    assume "\<not> i < 0" "\<not> j < 0"
    with eq have "nat i = nat j" by (simp add: py_str_def digits_inj)
    with \<open>\<not> i < 0\<close> \<open>\<not> j < 0\<close> show ?thesis by simp
  qed
qed

lemma py_str_no_underscore: "95 \<notin> set (py_str i)"
  using digits_range [of 95] by (auto simp: py_str_def)

lemma split_at_first:
  "x \<notin> set a \<Longrightarrow> x \<notin> set b \<Longrightarrow> a @ x # r = b @ x # r' \<Longrightarrow> a = b \<and> r = r'"
proof (induction a arbitrary: b)
  case Nil
  then show ?case by (cases b) auto
next
  case (Cons y a)
  then show ?case by (cases b) auto
qed

lemma token_value_eq_iff:
  "token_value t e = token_value t' e' \<longleftrightarrow> t = t' \<and> py_replace 64 95 e = py_replace 64 95 e'"
proof
  assume "token_value t e = token_value t' e'"
  then have "py_str t @ 95 # py_replace 64 95 e = py_str t' @ 95 # py_replace 64 95 e'"
    by (simp add: token_value_def asc_def)
  then have "py_str t = py_str t' \<and> py_replace 64 95 e = py_replace 64 95 e'"
    by (rule split_at_first [OF py_str_no_underscore py_str_no_underscore])
  then show "t = t' \<and> py_replace 64 95 e = py_replace 64 95 e'"
    using py_str_inj by blast
next
  assume "t = t' \<and> py_replace 64 95 e = py_replace 64 95 e'"
  then show "token_value t e = token_value t' e'"
    by (simp add: token_value_def)
qed

subsection \<open>The handlers, case by case\<close>

lemma mk_token_eq:
  "mk_token s now em = (s\<lparr>TOKENS := dict_set (TOKENS s) (token_value now em) em\<rparr>, token_value now em)"
  by (simp add: mk_token_def Let_def)

lemma register_conflict:
  "reg_email d \<in> fst ` set (USERS s) \<Longrightarrow>
   register s now d = (s, Inl (HTTPException 409 (asc ''User already exists'')))"
  by (simp add: register_def dict_contains_iff)

lemma register_new:
  "reg_email d \<notin> fst ` set (USERS s) \<Longrightarrow>
   register s now d =
     (s\<lparr>USERS := USERS s @ [(reg_email d, new_user s (reg_email d) (reg_name d))],
        TOKENS := dict_set (TOKENS s) (token_value now (reg_email d)) (reg_email d)\<rparr>,
      Inr (token_value now (reg_email d), new_user s (reg_email d) (reg_name d)))"
proof -
  assume a: "reg_email d \<notin> fst ` set (USERS s)"
  then have n: "map_of (USERS s) (reg_email d) = None"
    by (simp add: map_of_eq_None_iff)
  show ?thesis
    using a by (simp add: register_def Let_def dict_contains_iff mk_token_eq token_and_user_def
        dict_set_absent dict_getitem_def map_add_def n)
qed

lemma login_existing:
  "map_of (USERS s) (login_email d) = Some r \<Longrightarrow>
   login s now d =
     (s\<lparr>TOKENS := dict_set (TOKENS s) (token_value now (login_email d)) (login_email d)\<rparr>,
      Inr (token_value now (login_email d), r))"
  by (simp add: login_def Let_def dict_contains_def mk_token_eq token_and_user_def dict_getitem_def)

lemma login_new:
  "login_email d \<notin> fst ` set (USERS s) \<Longrightarrow>
   login s now d =
     (s\<lparr>USERS := USERS s @ [(login_email d, new_user s (login_email d) (asc ''Guest''))],
        TOKENS := dict_set (TOKENS s) (token_value now (login_email d)) (login_email d)\<rparr>,
      Inr (token_value now (login_email d), new_user s (login_email d) (asc ''Guest'')))"
proof -
  assume a: "login_email d \<notin> fst ` set (USERS s)"
  then have n: "map_of (USERS s) (login_email d) = None"
    by (simp add: map_of_eq_None_iff)
  show ?thesis
    using a by (simp add: login_def Let_def dict_contains_iff mk_token_eq token_and_user_def
        dict_set_absent dict_getitem_def map_add_def n)
qed

lemma purchase_confirm_unauthenticated:
  "get_email_from_token s a = Inl e \<Longrightarrow> purchase_confirm u s d a = (s, Inl e)"
  by (simp add: purchase_confirm_def Let_def)

lemma purchase_confirm_invalid:
  "get_email_from_token s a = Inr em \<Longrightarrow>
   py_lower u (py_strip (purchase_plan d)) \<noteq> asc ''plus'' \<Longrightarrow>
   py_lower u (py_strip (purchase_plan d)) \<noteq> asc ''pro'' \<Longrightarrow>
   purchase_confirm u s d a = (s, Inl (HTTPException 400 (asc ''plan must be Plus or Pro'')))"
  by (simp add: purchase_confirm_def Let_def)

lemma purchase_confirm_plus:
  "get_email_from_token s a = Inr em \<Longrightarrow> map_of (USERS s) em = Some r \<Longrightarrow>
   py_lower u (py_strip (purchase_plan d)) = asc ''plus'' \<Longrightarrow>
   purchase_confirm u s d a =
     (s\<lparr>USERS := dict_set (USERS s) em (r\<lparr>plan := asc ''Plus''\<rparr>)\<rparr>, Inr (r\<lparr>plan := asc ''Plus''\<rparr>))"
  by (simp add: purchase_confirm_def Let_def dict_getitem_def map_of_dict_set)

lemma purchase_confirm_pro:
  "get_email_from_token s a = Inr em \<Longrightarrow> map_of (USERS s) em = Some r \<Longrightarrow>
   py_lower u (py_strip (purchase_plan d)) = asc ''pro'' \<Longrightarrow>
   purchase_confirm u s d a =
     (s\<lparr>USERS := dict_set (USERS s) em (r\<lparr>plan := asc ''Pro''\<rparr>)\<rparr>, Inr (r\<lparr>plan := asc ''Pro''\<rparr>))"
  by (simp add: purchase_confirm_def Let_def dict_getitem_def map_of_dict_set asc_def)

lemma purchase_confirm_missing_user:
  "get_email_from_token s a = Inr em \<Longrightarrow> map_of (USERS s) em = None \<Longrightarrow>
   py_lower u (py_strip (purchase_plan d)) = asc ''plus'' \<or> py_lower u (py_strip (purchase_plan d)) = asc ''pro'' \<Longrightarrow>
   purchase_confirm u s d a = (s, Inl (KeyError em))"
  by (auto simp: purchase_confirm_def Let_def dict_getitem_def)

lemma lower_strip_PLUS: "py_lower u (py_strip (asc '' PLUS '')) = asc ''plus''"
  by (simp add: py_lower_def py_strip_def asc_def is_whitespace_def lower_ucs4_def to_lower_full_def)

lemma lower_strip_gold: "py_lower u (py_strip (asc ''gold'')) = asc ''gold''"
  by (simp add: py_lower_def py_strip_def asc_def is_whitespace_def lower_ucs4_def to_lower_full_def)

subsection \<open>Running the handlers on concrete requests\<close>

lemmas string_eval =
  asc_def py_str_def digits.simps py_replace_def py_startswith_def py_split1_def
  py_strip_def is_whitespace_def py_lower_def lower_ucs4_def to_lower_full_def
  to_title_full_def token_value_def default_persona_def reply_suffix_def

lemmas handler_eval =
  init_def register_def login_def me_def purchase_confirm_def chat_send_def
  chat_send_before_def chat_send_after_def get_email_from_token_def mk_token_def
  token_and_user_def new_user_def dict_contains_def dict_getitem_def Let_def

lemma register_alice:
  "register init 1000 alice =
     (\<lparr>USERS = [(asc ''alice@example.com'',
                  \<lparr>uid = asc ''user_1'', email = asc ''alice@example.com'',
                   name = asc ''Alice'', plan = asc ''Free''\<rparr>)],
       TOKENS = [(asc ''demo_1000_alice_example.com'', asc ''alice@example.com'')]\<rparr>,
      Inr (asc ''demo_1000_alice_example.com'',
           \<lparr>uid = asc ''user_1'', email = asc ''alice@example.com'',
            name = asc ''Alice'', plan = asc ''Free''\<rparr>))"
  by (simp add: alice_def handler_eval string_eval)

lemma alice_resolves:
  "get_email_from_token (fst (register init 1000 alice)) alice_auth = Inr (asc ''alice@example.com'')"
  by (simp add: register_alice) (simp add: alice_auth_def get_email_from_token_def string_eval)

lemma login_bob:
  "login init 1000 bob =
     (\<lparr>USERS = [(asc ''bob@example.com'',
                  \<lparr>uid = asc ''user_1'', email = asc ''bob@example.com'',
                   name = asc ''Guest'', plan = asc ''Free''\<rparr>)],
       TOKENS = [(asc ''demo_1000_bob_example.com'', asc ''bob@example.com'')]\<rparr>,
      Inr (asc ''demo_1000_bob_example.com'',
           \<lparr>uid = asc ''user_1'', email = asc ''bob@example.com'',
            name = asc ''Guest'', plan = asc ''Free''\<rparr>))"
  by (simp add: bob_def handler_eval string_eval)

lemma bob_resolves:
  "get_email_from_token (fst (login init 1000 bob)) bob_auth = Inr (asc ''bob@example.com'')"
  by (simp add: login_bob) (simp add: bob_auth_def get_email_from_token_def string_eval)

subsection \<open>What one request does to the stores\<close>

lemma register_state:
  "fst (register s now d) = s
   \<or> (reg_email d \<notin> fst ` set (USERS s)
      \<and> fst (register s now d) =
          s\<lparr>USERS := USERS s @ [(reg_email d, new_user s (reg_email d) (reg_name d))],
            TOKENS := dict_set (TOKENS s) (token_value now (reg_email d)) (reg_email d)\<rparr>)"
  by (cases "reg_email d \<in> fst ` set (USERS s)") (simp_all add: register_conflict register_new)

lemma login_state:
  "(login_email d \<in> fst ` set (USERS s)
      \<and> fst (login s now d) =
          s\<lparr>TOKENS := dict_set (TOKENS s) (token_value now (login_email d)) (login_email d)\<rparr>)
   \<or> (login_email d \<notin> fst ` set (USERS s)
      \<and> fst (login s now d) =
          s\<lparr>USERS := USERS s @ [(login_email d, new_user s (login_email d) (asc ''Guest''))],
            TOKENS := dict_set (TOKENS s) (token_value now (login_email d)) (login_email d)\<rparr>)"
proof (cases "map_of (USERS s) (login_email d)")
  case None
  then have "login_email d \<notin> fst ` set (USERS s)"
    by (simp add: map_of_eq_None_iff)
  then show ?thesis by (simp add: login_new)
next
  case (Some r)
  then have "login_email d \<in> fst ` set (USERS s)"
    by (metis map_of_eq_None_iff option.distinct(1))
  then show ?thesis using Some by (simp add: login_existing)
qed

lemma purchase_confirm_state:
  "purchase_confirm u s d a = (s, snd (purchase_confirm u s d a)) \<and> (\<forall>r. snd (purchase_confirm u s d a) \<noteq> Inr r)
   \<or> (\<exists>em r p. get_email_from_token s a = Inr em \<and> map_of (USERS s) em = Some r
        \<and> purchase_confirm u s d a =
            (s\<lparr>USERS := dict_set (USERS s) em (r\<lparr>plan := p\<rparr>)\<rparr>, Inr (r\<lparr>plan := p\<rparr>)))"
proof (cases "get_email_from_token s a")
  case (Inl e)
  then show ?thesis by (simp add: purchase_confirm_unauthenticated)
next
  case (Inr em)
  show ?thesis
  proof (cases "py_lower u (py_strip (purchase_plan d)) = asc ''plus''
                 \<or> py_lower u (py_strip (purchase_plan d)) = asc ''pro''")
    case False
    with Inr show ?thesis by (simp add: purchase_confirm_invalid)
  next
    case True
    show ?thesis
    proof (cases "map_of (USERS s) em")
      case None
      from purchase_confirm_missing_user [OF Inr None True] show ?thesis by simp
    next
      case (Some r)
      from True show ?thesis
      proof
        assume "py_lower u (py_strip (purchase_plan d)) = asc ''plus''"
        from purchase_confirm_plus [OF Inr Some this] Inr Some show ?thesis by blast
      next
        assume "py_lower u (py_strip (purchase_plan d)) = asc ''pro''"
        from purchase_confirm_pro [OF Inr Some this] Inr Some show ?thesis by blast
      qed
    qed
  qed
qed

lemma step_state:
  "step u s ev = s
   \<or> (\<exists>tok e. e \<in> fst ` set (USERS s)
        \<and> step u s ev = s\<lparr>TOKENS := dict_set (TOKENS s) tok e\<rparr>)
   \<or> (\<exists>tok e nm. e \<notin> fst ` set (USERS s)
        \<and> step u s ev = s\<lparr>USERS := USERS s @ [(e, new_user s e nm)],
                            TOKENS := dict_set (TOKENS s) tok e\<rparr>)
   \<or> (\<exists>em r p. map_of (USERS s) em = Some r
        \<and> step u s ev = s\<lparr>USERS := dict_set (USERS s) em (r\<lparr>plan := p\<rparr>)\<rparr>)"
proof (cases ev)
  case (Pair now req)
  show ?thesis
  proof (cases req)
    case (Register d)
    then have st: "step u s ev = fst (register s now d)"
      using Pair by simp
    from register_state [of s now d] show ?thesis
      unfolding st by blast
  next
    case (Login d)
    then have st: "step u s ev = fst (login s now d)"
      using Pair by simp
    from login_state [of d s now] show ?thesis
      unfolding st by blast
  next
    case (PurchaseConfirm d a)
    then have st: "step u s ev = fst (purchase_confirm u s d a)"
      using Pair by simp
    from purchase_confirm_state [of u s d a] show ?thesis
      unfolding st by (metis fst_conv)
  qed (simp_all add: Pair)
qed

lemma run_snoc: "run u s (rs @ [ev]) = step u (run u s rs) ev"
  by (simp add: run_def)

lemma run_append: "run u s (rs @ rs') = run u (run u s rs) rs'"
  by (simp add: run_def)

subsection \<open>Invariants of the stores\<close>

lemma set_dict_set: "set (dict_set d k v) \<subseteq> insert (k, v) (set d)"
  by (induction d) (auto split: if_splits)

lemma keys_set_dict_set: "fst ` set (dict_set d k v) = insert k (fst ` set d)"
proof -
  have "set (map fst (dict_set d k v)) = insert k (set (map fst d))"
    by (simp only: keys_dict_set) auto
  then show ?thesis by simp
qed

lemma map_of_in_keys: "map_of d k = Some v \<Longrightarrow> k \<in> fst ` set d"
  by (metis map_of_eq_None_iff option.distinct(1))

lemma step_keys_mono: "fst ` set (USERS s) \<subseteq> fst ` set (USERS (step u s ev))"
proof -
  from step_state [of u s ev] show ?thesis
  proof (elim disjE exE conjE)
    fix em r p
    assume "step u s ev = s\<lparr>USERS := dict_set (USERS s) em (r\<lparr>plan := p\<rparr>)\<rparr>"
    then show ?thesis by (simp add: keys_set_dict_set subset_insertI)
  qed auto
qed

lemma run_keys_mono: "fst ` set (USERS s) \<subseteq> fst ` set (USERS (run u s rs))"
proof (induction rs rule: rev_induct)
  case Nil
  show ?case by (simp add: run_def)
next
  case (snoc ev rs)
  with step_keys_mono [of "run u s rs" u ev] show ?case
    unfolding run_snoc by blast
qed

lemma step_tokens_known:
  assumes "snd ` set (TOKENS s) \<subseteq> fst ` set (USERS s)"
  shows "snd ` set (TOKENS (step u s ev)) \<subseteq> fst ` set (USERS (step u s ev))"
proof -
  have tok: "snd ` set (dict_set (TOKENS s) tok e) \<subseteq> insert e (fst ` set (USERS s))" for tok e
  proof -
    have "snd ` set (dict_set (TOKENS s) tok e) \<subseteq> snd ` insert (tok, e) (set (TOKENS s))"
      by (rule image_mono) (rule set_dict_set)
    also have "\<dots> = insert e (snd ` set (TOKENS s))" by simp
    also have "\<dots> \<subseteq> insert e (fst ` set (USERS s))"
      using assms by (rule insert_mono)
    finally show ?thesis .
  qed
  from step_state [of u s ev] show ?thesis
  proof (elim disjE exE conjE)
    assume "step u s ev = s"
    with assms show ?thesis by simp
  next
    fix tok e
    assume e: "e \<in> fst ` set (USERS s)"
      and st: "step u s ev = s\<lparr>TOKENS := dict_set (TOKENS s) tok e\<rparr>"
    from e have "insert e (fst ` set (USERS s)) = fst ` set (USERS s)"
      by (rule insert_absorb)
    with tok [of tok e] show ?thesis
      by (simp add: st)
  next
    fix tok e nm
    assume st: "step u s ev = s\<lparr>USERS := USERS s @ [(e, new_user s e nm)],
                              TOKENS := dict_set (TOKENS s) tok e\<rparr>"
    from tok [of tok e] show ?thesis
      by (simp add: st)
  next
    fix em r p
    assume st: "step u s ev = s\<lparr>USERS := dict_set (USERS s) em (r\<lparr>plan := p\<rparr>)\<rparr>"
    from assms show ?thesis
      by (simp add: st keys_set_dict_set subset_insertI2)
  qed
qed

lemma run_tokens_known:
  "snd ` set (TOKENS s) \<subseteq> fst ` set (USERS s) \<Longrightarrow>
   snd ` set (TOKENS (run u s rs)) \<subseteq> fst ` set (USERS (run u s rs))"
proof (induction rs rule: rev_induct)
  case Nil
  then show ?case by (simp add: run_def)
next
  case (snoc ev rs)
  then show ?case by (simp only: run_snoc step_tokens_known)
qed

lemma get_email_from_token_Inl:
  "get_email_from_token s a = Inl e \<Longrightarrow> \<exists>detail. e = HTTPException 401 detail"
proof (cases "\<exists>t. a = Some (asc ''Bearer '' @ t)")
  case True
  then obtain t where "a = Some (asc ''Bearer '' @ t)" by blast
  moreover assume "get_email_from_token s a = Inl e"
  ultimately show ?thesis
    by (auto simp: get_email_from_token_Bearer split: option.splits if_splits)
next
  case False
  moreover assume "get_email_from_token s a = Inl e"
  ultimately show ?thesis
    by (auto simp: get_email_from_token_other)
qed

lemma resolved_email_is_user:
  assumes "snd ` set (TOKENS s) \<subseteq> fst ` set (USERS s)" and "get_email_from_token s a = Inr em"
  shows "em \<in> fst ` set (USERS s)"
proof -
  from assms(2) obtain t where "map_of (TOKENS s) t = Some em"
    by (auto simp: get_email_from_token_Inr)
  then have "(t, em) \<in> set (TOKENS s)" by (rule map_of_SomeD)
  then have "em \<in> snd ` set (TOKENS s)" by force
  with assms(1) show ?thesis by blast
qed

lemma dict_getitem_present:
  "k \<in> fst ` set d \<Longrightarrow> \<exists>v. dict_getitem d k = Inr v"
  by (cases "map_of d k") (auto simp: dict_getitem_def map_of_eq_None_iff)

lemma me_no_KeyError:
  assumes "snd ` set (TOKENS s) \<subseteq> fst ` set (USERS s)"
  shows "me s a \<noteq> Inl (KeyError k)"
proof (cases "get_email_from_token s a")
  case (Inl e)
  with get_email_from_token_Inl [OF Inl] show ?thesis by (auto simp: me_def)
next
  case (Inr em)
  with dict_getitem_present [OF resolved_email_is_user [OF assms Inr]] show ?thesis
    by (auto simp: me_def)
qed

lemma chat_send_no_KeyError:
  assumes "snd ` set (TOKENS s) \<subseteq> fst ` set (USERS s)"
    and "fst ` set (USERS s) \<subseteq> fst ` set (USERS s')"
  shows "chat_send u s s' payload a \<noteq> Inl (KeyError k)"
proof (cases "get_email_from_token s a")
  case (Inl e)
  with get_email_from_token_Inl [OF Inl] show ?thesis
    by (auto simp: chat_send_def chat_send_before_def)
next
  case (Inr em)
  from resolved_email_is_user [OF assms(1) Inr] assms(2) have "em \<in> fst ` set (USERS s')"
    by blast
  from dict_getitem_present [OF this] Inr show ?thesis
    by (auto simp: chat_send_def chat_send_before_def chat_send_after_def)
qed

lemma purchase_confirm_no_KeyError:
  assumes "snd ` set (TOKENS s) \<subseteq> fst ` set (USERS s)"
  shows "snd (purchase_confirm u s d a) \<noteq> Inl (KeyError k)"
proof (cases "get_email_from_token s a")
  case (Inl e)
  with get_email_from_token_Inl [OF Inl] show ?thesis
    by (auto simp: purchase_confirm_unauthenticated)
next
  case (Inr em)
  from resolved_email_is_user [OF assms Inr] obtain r where r: "map_of (USERS s) em = Some r"
    by (metis map_of_eq_None_iff not_Some_eq)
  show ?thesis
  proof (cases "py_lower u (py_strip (purchase_plan d)) = asc ''plus''")
    case True
    from purchase_confirm_plus [OF Inr r True] show ?thesis by simp
  next
    case False
    show ?thesis
    proof (cases "py_lower u (py_strip (purchase_plan d)) = asc ''pro''")
      case True
      from purchase_confirm_pro [OF Inr r True] show ?thesis by simp
    next
      case pro: False
      from purchase_confirm_invalid [OF Inr False pro] show ?thesis by simp
    qed
  qed
qed

subsection \<open>User ids\<close>

lemma sequential_ids_Suc:
  "sequential_ids (Suc n) = sequential_ids n @ [asc ''user_'' @ py_str (int n + 1)]"
  by (simp add: sequential_ids_def add.commute)

lemma step_user_ids:
  assumes "user_ids s = sequential_ids (length (USERS s))"
  shows "user_ids (step u s ev) = sequential_ids (length (USERS (step u s ev)))"
proof -
  from step_state [of u s ev] show ?thesis
  proof (elim disjE exE conjE)
    assume "step u s ev = s"
    with assms show ?thesis by simp
  next
    fix tok e
    assume "step u s ev = s\<lparr>TOKENS := dict_set (TOKENS s) tok e\<rparr>"
    with assms show ?thesis by (simp add: user_ids_def)
  next
    fix tok e nm
    assume st: "step u s ev = s\<lparr>USERS := USERS s @ [(e, new_user s e nm)],
                              TOKENS := dict_set (TOKENS s) tok e\<rparr>"
    have "user_ids (step u s ev) = user_ids s @ [asc ''user_'' @ py_str (int (length (USERS s)) + 1)]"
      by (simp add: st user_ids_def new_user_def)
    with assms show ?thesis
      by (simp add: st sequential_ids_Suc)
  next
    fix em r p
    assume r: "map_of (USERS s) em = Some r"
      and st: "step u s ev = s\<lparr>USERS := dict_set (USERS s) em (r\<lparr>plan := p\<rparr>)\<rparr>"
    have "user_ids (step u s ev) = user_ids s"
      unfolding user_ids_def st using dict_set_field [OF r, of uid "r\<lparr>plan := p\<rparr>"] by simp
    moreover have "length (USERS (step u s ev)) = length (USERS s)"
      using map_of_in_keys [OF r] by (simp add: st length_dict_set)
    ultimately show ?thesis using assms by simp
  qed
qed

lemma run_user_ids: "user_ids (run u init rs) = sequential_ids (length (USERS (run u init rs)))"
proof (induction rs rule: rev_induct)
  case Nil
  show ?case by (simp add: run_def init_def user_ids_def sequential_ids_def)
next
  case (snoc ev rs)
  then show ?case unfolding run_snoc by (rule step_user_ids)
qed

lemma distinct_sequential_ids: "distinct (sequential_ids n)"
proof -
  have "inj_on (\<lambda>i. asc ''user_'' @ py_str (int i)) (set [1..<Suc n])"
    by (rule inj_onI) (auto dest: py_str_inj)
  then show ?thesis
    unfolding sequential_ids_def by (simp add: distinct_map)
qed

lemma step_keys:
  "map fst (USERS (step u s ev)) = map fst (USERS s)
   \<or> (\<exists>e. e \<notin> fst ` set (USERS s) \<and> map fst (USERS (step u s ev)) = map fst (USERS s) @ [e])"
proof -
  from step_state [of u s ev] show ?thesis
  proof (elim disjE exE conjE)
    fix em r p
    assume r: "map_of (USERS s) em = Some r"
      and st: "step u s ev = s\<lparr>USERS := dict_set (USERS s) em (r\<lparr>plan := p\<rparr>)\<rparr>"
    from map_of_in_keys [OF r] show ?thesis
      by (simp add: st keys_dict_set)
  next
    fix tok e nm
    assume "e \<notin> fst ` set (USERS s)"
      and "step u s ev = s\<lparr>USERS := USERS s @ [(e, new_user s e nm)],
                              TOKENS := dict_set (TOKENS s) tok e\<rparr>"
    then show ?thesis by simp
  qed simp_all
qed

lemma step_distinct_keys:
  "distinct (map fst (USERS s)) \<Longrightarrow> distinct (map fst (USERS (step u s ev)))"
  using step_keys [of u s ev] by auto

lemma run_distinct_keys: "distinct (map fst (USERS (run u init rs)))"
proof (induction rs rule: rev_induct)
  case Nil
  show ?case by (simp add: run_def init_def)
next
  case (snoc ev rs)
  then show ?case unfolding run_snoc by (rule step_distinct_keys)
qed

lemma run_keys_extend: "\<exists>ks. map fst (USERS (run u s rs)) = map fst (USERS s) @ ks"
proof (induction rs rule: rev_induct)
  case Nil
  show ?case by (simp add: run_def)
next
  case (snoc ev rs)
  then obtain ks where ks: "map fst (USERS (run u s rs)) = map fst (USERS s) @ ks" by blast
  from step_keys [of u "run u s rs" ev] show ?case
    unfolding run_snoc ks by auto
qed

lemma take_sequential_ids:
  assumes "n \<le> m"
  shows "take n (sequential_ids m) = sequential_ids n"
proof -
  from assms have "take n [1..<Suc m] = [1..<1 + n]"
    by (intro take_upt) simp
  then have "take n [1..<Suc m] = [1..<Suc n]"
    by simp
  then show ?thesis
    unfolding sequential_ids_def take_map by (rule arg_cong)
qed

subsection \<open>Stored records over time\<close>

lemma map_of_snoc_Some: "map_of d k = Some r \<Longrightarrow> map_of (d @ [(e, v)]) k = Some r"
  by (simp add: map_add_def)

lemma step_user_record:
  assumes "map_of (USERS s) k = Some r0"
  shows "\<exists>r1. map_of (USERS (step u s ev)) k = Some r1 \<and> r1 = r0\<lparr>plan := plan r1\<rparr>
           \<and> ((\<forall>d a. snd ev \<noteq> PurchaseConfirm d a) \<longrightarrow> r1 = r0)"
proof (cases ev)
  case (Pair now req)
  show ?thesis
  proof (cases req)
    case (Register d)
    then have st: "step u s ev = fst (register s now d)"
      using Pair by simp
    from register_state [of s now d] assms show ?thesis
      unfolding st by (auto simp: map_of_snoc_Some)
  next
    case (Login d)
    then have st: "step u s ev = fst (login s now d)"
      using Pair by simp
    from login_state [of d s now] assms show ?thesis
      unfolding st by (auto simp: map_of_snoc_Some)
  next
    case (PurchaseConfirm d a)
    then have st: "step u s ev = fst (purchase_confirm u s d a)"
      and ev: "snd ev = PurchaseConfirm d a"
      using Pair by simp_all
    from purchase_confirm_state [of u s d a] show ?thesis
    proof (elim disjE exE conjE)
      assume "purchase_confirm u s d a = (s, snd (purchase_confirm u s d a))"
      then have "fst (purchase_confirm u s d a) = s"
        by (metis fst_conv)
      with assms ev show ?thesis by (simp add: st)
    next
      fix em r p
      assume r: "map_of (USERS s) em = Some r"
        and pc: "purchase_confirm u s d a =
            (s\<lparr>USERS := dict_set (USERS s) em (r\<lparr>plan := p\<rparr>)\<rparr>, Inr (r\<lparr>plan := p\<rparr>))"
      show ?thesis
      proof (cases "k = em")
        case True
        with r assms ev show ?thesis by (simp add: st pc map_of_dict_set)
      next
        case False
        with assms ev show ?thesis by (simp add: st pc map_of_dict_set)
      qed
    qed
  qed (use assms Pair in simp_all)
qed

lemma run_user_record:
  assumes "map_of (USERS s) k = Some r0"
  shows "\<exists>r1. map_of (USERS (run u s rs)) k = Some r1 \<and> r1 = r0\<lparr>plan := plan r1\<rparr>"
proof (induction rs rule: rev_induct)
  case Nil
  with assms show ?case by (simp add: run_def)
next
  case (snoc ev rs)
  then obtain r1 where r1: "map_of (USERS (run u s rs)) k = Some r1" "r1 = r0\<lparr>plan := plan r1\<rparr>"
    by blast
  from step_user_record [OF r1(1), of u ev] obtain r2
    where r2: "map_of (USERS (step u (run u s rs) ev)) k = Some r2" "r2 = r1\<lparr>plan := plan r2\<rparr>"
    by blast
  from r1(2) r2(2) have "r2 = r0\<lparr>plan := plan r2\<rparr>"
    by (metis user.surjective user.update_convs(4) user.select_convs(4))
  with r2(1) show ?case unfolding run_snoc by blast
qed

lemma purchase_confirm_frame:
  assumes "purchase_confirm u s d a = (s', Inr r')"
  shows "\<exists>em r. get_email_from_token s a = Inr em \<and> map_of (USERS s) em = Some r
           \<and> r' = r\<lparr>plan := plan r'\<rparr> \<and> s' = s\<lparr>USERS := dict_set (USERS s) em r'\<rparr>"
proof -
  from purchase_confirm_state [of u s d a] show ?thesis
  proof (elim disjE exE conjE)
    assume "\<forall>r. snd (purchase_confirm u s d a) \<noteq> Inr r"
    with assms show ?thesis by simp
  next
    fix em r p
    assume "get_email_from_token s a = Inr em" "map_of (USERS s) em = Some r"
      and "purchase_confirm u s d a =
            (s\<lparr>USERS := dict_set (USERS s) em (r\<lparr>plan := p\<rparr>)\<rparr>, Inr (r\<lparr>plan := p\<rparr>))"
    with assms show ?thesis by auto
  qed
qed

subsection \<open>Lower-casing twice\<close>

lemma lower_fixed_ascii:
  "c < 128 \<Longrightarrow> d \<in> set (to_lower_full u c) \<Longrightarrow> lower_fixed u d"
  by (auto simp: to_lower_full_def lower_fixed_def split: if_splits)

lemma lower_ucs4_fixed:
  assumes "lower_stable u" and "d \<in> set (lower_ucs4 u pre c post)"
  shows "lower_fixed u d"
proof (cases "c = 931")
  case True
  with assms(2) have "d = 962 \<or> d = 963"
    by (simp add: lower_ucs4_def handle_capital_sigma_def split: if_splits)
  with assms(1) show ?thesis by (auto simp: lower_stable_def)
next
  case False
  show ?thesis
  proof (cases "c < 128")
    case True
    with False assms(2) show ?thesis
      by (simp add: lower_ucs4_def lower_fixed_ascii)
  next
    case ge: False
    with False assms(2) have "d \<in> set (lower_full u c)"
      by (simp add: lower_ucs4_def to_lower_full_def)
    with False ge assms(1) show ?thesis
      unfolding lower_stable_def by (meson not_less)
  qed
qed

lemma lower_from_fixed:
  "lower_stable u \<Longrightarrow> d \<in> set (lower_from u pre s) \<Longrightarrow> lower_fixed u d"
  by (induction s arbitrary: pre) (auto dest: lower_ucs4_fixed)

lemma lower_from_id:
  "(\<And>d. d \<in> set s \<Longrightarrow> lower_fixed u d) \<Longrightarrow> lower_from u pre s = s"
  by (induction s arbitrary: pre) (simp_all add: lower_ucs4_def lower_fixed_def)

lemma capitalize_lowered:
  assumes "lower_stable u"
  shows "py_capitalize u (py_lower u p) = capitalize_first u (py_lower u p)"
proof (cases "py_lower u p")
  case Nil
  then show ?thesis by simp
next
  case (Cons c cs)
  have "lower_fixed u d" if "d \<in> set cs" for d
  proof -
    from that Cons have "d \<in> set (lower_from u [] p)"
      by (simp add: py_lower_def)
    with assms show ?thesis by (rule lower_from_fixed)
  qed
  then have "lower_from u [c] cs = cs"
    by (rule lower_from_id)
  with Cons show ?thesis by simp
qed

lemma lower_stable_ascii_db: "lower_stable ascii_db"
  by (simp add: lower_stable_def lower_fixed_def to_lower_full_def ascii_db_def)

lemma capitalize_kanka: "py_capitalize u (py_lower u (asc ''kanka'')) = asc ''Kanka''"
  by (simp add: string_eval)

lemma capitalize_default_persona:
  "lower_full u 351 = [351] \<Longrightarrow> py_capitalize u (py_lower u default_persona) = default_persona"
  by (simp add: string_eval)

lemma reply_suffix_text:
  "reply_suffix =
     [32, 109, 111, 100, 117, 58, 32, 77, 101, 115, 97, 106, 305, 110, 305, 32, 97, 108,
      100, 305, 109, 32, 8212, 32, 107, 305, 115, 97, 32, 100, 101, 109, 111, 32, 121, 97,
      110, 305, 116, 46]"
  by (simp add: reply_suffix_def asc_def)

lemma chat_send_resolved:
  assumes "get_email_from_token s a = Inr em" and "map_of (USERS s') em = Some r"
  shows "chat_send u s s' payload a
           = Inr \<lparr>sender = asc ''assistant'',
                  reply = py_capitalize u
                            (py_lower u (case persona payload of
                                           None \<Rightarrow> default_persona
                                         | Some p \<Rightarrow> if p = [] then default_persona else p))
                          @ reply_suffix,
                  user_plan = plan r\<rparr>"
  using assms
  by (simp add: chat_send_def chat_send_before_def chat_send_after_def dict_getitem_def)

subsection \<open>A purchase while a chat request waits\<close>

lemma purchase_alice_pro:
  "run ascii_db (fst (register init 1000 alice))
       [(2000, PurchaseConfirm \<lparr>purchase_plan = asc ''Pro''\<rparr> alice_auth)]
     = \<lparr>USERS = [(asc ''alice@example.com'',
                   \<lparr>uid = asc ''user_1'', email = asc ''alice@example.com'',
                    name = asc ''Alice'', plan = asc ''Pro''\<rparr>)],
        TOKENS = [(asc ''demo_1000_alice_example.com'', asc ''alice@example.com'')]\<rparr>"
proof -
  have r: "map_of (USERS (fst (register init 1000 alice))) (asc ''alice@example.com'')
      = Some \<lparr>uid = asc ''user_1'', email = asc ''alice@example.com'',
              name = asc ''Alice'', plan = asc ''Free''\<rparr>"
    by (simp add: register_alice)
  have lower: "py_lower ascii_db (py_strip (purchase_plan \<lparr>purchase_plan = asc ''Pro''\<rparr>)) = asc ''pro''"
    by (simp add: string_eval)
  from purchase_confirm_pro [OF alice_resolves r lower] show ?thesis
    by (simp add: run_def register_alice)
qed

subsection \<open>Login as get-or-create\<close>

text \<open>
  \<open>login\<close> returns the stored record of a known email as it is, whatever its plan, and
  leaves the user store unchanged; for an unknown email it appends a record with the
  next id, the name "Guest" and the plan "Free". In both cases it stores the token that
  \<open>token_value\<close> builds from the clock reading and the email.
\<close>

lemma login_get_or_create:
  "(map_of (USERS s) (login_email d) = Some r \<longrightarrow>
      snd (login s now d) = Inr (token_value now (login_email d), r)
      \<and> USERS (fst (login s now d)) = USERS s)
   \<and> (login_email d \<notin> fst ` set (USERS s) \<longrightarrow>
        (\<exists>r'. snd (login s now d) = Inr (token_value now (login_email d), r')
           \<and> uid r' = asc ''user_'' @ py_str (int (length (USERS s)) + 1)
           \<and> email r' = login_email d \<and> name r' = asc ''Guest'' \<and> plan r' = asc ''Free''
           \<and> USERS (fst (login s now d)) = USERS s @ [(login_email d, r')]))
   \<and> TOKENS (fst (login s now d))
        = dict_set (TOKENS s) (token_value now (login_email d)) (login_email d)
   \<and> map_of (TOKENS (fst (login s now d))) (token_value now (login_email d))
        = Some (login_email d)"
proof (cases "map_of (USERS s) (login_email d)")
  case None
  then have "login_email d \<notin> fst ` set (USERS s)"
    by (simp add: map_of_eq_None_iff)
  then show ?thesis
    using None by (simp add: login_new new_user_def map_of_dict_set)
next
  case (Some r0)
  then have "login_email d \<in> fst ` set (USERS s)"
    by (metis map_of_eq_None_iff option.distinct(1))
  then show ?thesis
    using Some by (simp add: login_existing map_of_dict_set)
qed

lemma login_get_or_create_example:
  "login_email bob \<notin> fst ` set (USERS init)
   \<and> snd (login init 1000 bob)
       = Inr (asc ''demo_1000_bob_example.com'',
              \<lparr>uid = asc ''user_1'', email = asc ''bob@example.com'', name = asc ''Guest'',
               plan = asc ''Free''\<rparr>)
   \<and> map_of (USERS (fst (purchase_confirm ascii_db (fst (login init 1000 bob))
                           \<lparr>purchase_plan = asc ''Pro''\<rparr> bob_auth)))
        (login_email bob)
       = Some \<lparr>uid = asc ''user_1'', email = asc ''bob@example.com'', name = asc ''Guest'',
               plan = asc ''Pro''\<rparr>
   \<and> snd (login (fst (purchase_confirm ascii_db (fst (login init 1000 bob))
                        \<lparr>purchase_plan = asc ''Pro''\<rparr> bob_auth)) 2000 bob)
       = Inr (asc ''demo_2000_bob_example.com'',
              \<lparr>uid = asc ''user_1'', email = asc ''bob@example.com'', name = asc ''Guest'',
               plan = asc ''Pro''\<rparr>)
   \<and> USERS (fst (login (fst (purchase_confirm ascii_db (fst (login init 1000 bob))
                               \<lparr>purchase_plan = asc ''Pro''\<rparr> bob_auth)) 2000 bob))
       = USERS (fst (purchase_confirm ascii_db (fst (login init 1000 bob))
                       \<lparr>purchase_plan = asc ''Pro''\<rparr> bob_auth))"
proof -
  let ?s1 = "fst (login init 1000 bob)"
  let ?s2 = "fst (purchase_confirm ascii_db ?s1 \<lparr>purchase_plan = asc ''Pro''\<rparr> bob_auth)"
  let ?r = "\<lparr>uid = asc ''user_1'', email = asc ''bob@example.com'', name = asc ''Guest'',
             plan = asc ''Free''\<rparr>"
  have new: "login_email bob \<notin> fst ` set (USERS init)"
    by (simp add: init_def)
  have r: "map_of (USERS ?s1) (asc ''bob@example.com'') = Some ?r"
    by (simp add: login_bob)
  have "py_lower ascii_db (py_strip (purchase_plan \<lparr>purchase_plan = asc ''Pro''\<rparr>)) = asc ''pro''"
    by (simp add: string_eval)
  from purchase_confirm_pro [OF bob_resolves r this]
  have s2: "map_of (USERS ?s2) (login_email bob) = Some (?r\<lparr>plan := asc ''Pro''\<rparr>)"
    by (simp add: map_of_dict_set bob_def)
  have tokens: "token_value 1000 (login_email bob) = asc ''demo_1000_bob_example.com''"
    "token_value 2000 (login_email bob) = asc ''demo_2000_bob_example.com''"
    by (simp_all add: bob_def string_eval)
  show ?thesis
    using new s2 login_get_or_create [of init bob ?r 1000]
      login_get_or_create [of ?s2 bob "?r\<lparr>plan := asc ''Pro''\<rparr>" 2000]
    by (simp add: tokens login_bob)
qed

section \<open>Token values\<close>

text \<open>
  C1. The claim is that token values never collide and that an issued token resolves to
  the same email for ever. The token is built from the clock reading in milliseconds
  and the email with every \<open>@\<close> replaced by \<open>_\<close> (\<open>token_value_eq_iff\<close> says exactly when two
  tokens coincide), so two different emails that differ only in \<open>@\<close> against \<open>_\<close> get the
  same token within one millisecond. Below, \<open>a_b@c.d\<close> logs in and its token resolves to
  user 1; then \<open>a@b_c.d\<close> logs in at the same clock reading, receives the same token, and
  from then on that token resolves to user 2.
\<close>

theorem mk_token_collision:
  "snd (login init 1700000000000 \<lparr>login_email = asc ''a_b@c.d'', login_password = asc ''pw''\<rparr>)
     = Inr (asc ''demo_1700000000000_a_b_c.d'',
            \<lparr>uid = asc ''user_1'', email = asc ''a_b@c.d'', name = asc ''Guest'',
             plan = asc ''Free''\<rparr>)
   \<and> me (fst (login init 1700000000000
                 \<lparr>login_email = asc ''a_b@c.d'', login_password = asc ''pw''\<rparr>))
          (Some (asc ''Bearer demo_1700000000000_a_b_c.d''))
       = Inr \<lparr>uid = asc ''user_1'', email = asc ''a_b@c.d'', name = asc ''Guest'',
              plan = asc ''Free''\<rparr>
   \<and> snd (login (fst (login init 1700000000000
                         \<lparr>login_email = asc ''a_b@c.d'', login_password = asc ''pw''\<rparr>))
            1700000000000 \<lparr>login_email = asc ''a@b_c.d'', login_password = asc ''pw''\<rparr>)
       = Inr (asc ''demo_1700000000000_a_b_c.d'',
              \<lparr>uid = asc ''user_2'', email = asc ''a@b_c.d'', name = asc ''Guest'',
               plan = asc ''Free''\<rparr>)
   \<and> me (fst (login (fst (login init 1700000000000
                             \<lparr>login_email = asc ''a_b@c.d'', login_password = asc ''pw''\<rparr>))
                1700000000000 \<lparr>login_email = asc ''a@b_c.d'', login_password = asc ''pw''\<rparr>))
          (Some (asc ''Bearer demo_1700000000000_a_b_c.d''))
       = Inr \<lparr>uid = asc ''user_2'', email = asc ''a@b_c.d'', name = asc ''Guest'',
              plan = asc ''Free''\<rparr>"
proof -
  let ?d1 = "\<lparr>login_email = asc ''a_b@c.d'', login_password = asc ''pw''\<rparr>"
  let ?d2 = "\<lparr>login_email = asc ''a@b_c.d'', login_password = asc ''pw''\<rparr>"
  let ?r1 = "\<lparr>uid = asc ''user_1'', email = asc ''a_b@c.d'', name = asc ''Guest'',
              plan = asc ''Free''\<rparr>"
  let ?r2 = "\<lparr>uid = asc ''user_2'', email = asc ''a@b_c.d'', name = asc ''Guest'',
              plan = asc ''Free''\<rparr>"
  let ?tok = "asc ''demo_1700000000000_a_b_c.d''"
  have l1: "login init 1700000000000 ?d1
      = (\<lparr>USERS = [(asc ''a_b@c.d'', ?r1)], TOKENS = [(?tok, asc ''a_b@c.d'')]\<rparr>, Inr (?tok, ?r1))"
    by (simp add: handler_eval string_eval)
  have l2: "login \<lparr>USERS = [(asc ''a_b@c.d'', ?r1)], TOKENS = [(?tok, asc ''a_b@c.d'')]\<rparr>
        1700000000000 ?d2
      = (\<lparr>USERS = [(asc ''a_b@c.d'', ?r1), (asc ''a@b_c.d'', ?r2)],
          TOKENS = [(?tok, asc ''a@b_c.d'')]\<rparr>, Inr (?tok, ?r2))"
    by (simp add: handler_eval string_eval)
  have m1: "me \<lparr>USERS = [(asc ''a_b@c.d'', ?r1)], TOKENS = [(?tok, asc ''a_b@c.d'')]\<rparr>
        (Some (asc ''Bearer demo_1700000000000_a_b_c.d'')) = Inr ?r1"
    by (simp add: handler_eval string_eval)
  have m2: "me \<lparr>USERS = [(asc ''a_b@c.d'', ?r1), (asc ''a@b_c.d'', ?r2)],
          TOKENS = [(?tok, asc ''a@b_c.d'')]\<rparr>
        (Some (asc ''Bearer demo_1700000000000_a_b_c.d'')) = Inr ?r2"
    by (simp add: handler_eval string_eval)
  show ?thesis
    by (simp only: l1 l2 m1 m2 fst_conv snd_conv simp_thms)
qed

section \<open>User ids\<close>

text \<open>
  C2. After any sequence of requests from the empty stores, the user records, in the
  order of their creation, have the ids \<open>user_1\<close>, \<open>user_2\<close>, ... without gaps, whichever
  of \<open>register\<close> and \<open>login\<close> created them; the ids are pairwise distinct, and so are the
  emails. Later requests \<open>rs'\<close> leave the records created so far in place, with their ids.
\<close>

theorem user_ids_sequential:
  "user_ids (run u init rs) = sequential_ids (length (USERS (run u init rs)))
   \<and> distinct (user_ids (run u init rs))
   \<and> distinct (map fst (USERS (run u init rs)))
   \<and> take (length (USERS (run u init rs))) (map fst (USERS (run u init (rs @ rs'))))
       = map fst (USERS (run u init rs))
   \<and> take (length (USERS (run u init rs))) (user_ids (run u init (rs @ rs')))
       = user_ids (run u init rs)"
proof -
  let ?s = "run u init rs" and ?s' = "run u init (rs @ rs')"
  have ids: "user_ids ?s = sequential_ids (length (USERS ?s))"
    by (rule run_user_ids)
  have ids': "user_ids ?s' = sequential_ids (length (USERS ?s'))"
    by (rule run_user_ids)
  from run_keys_extend [of u ?s rs'] obtain ks
    where ks: "map fst (USERS ?s') = map fst (USERS ?s) @ ks"
    unfolding run_append by blast
  then have "length (map fst (USERS ?s')) = length (map fst (USERS ?s) @ ks)"
    by simp
  then have le: "length (USERS ?s) \<le> length (USERS ?s')"
    by simp
  have keys: "take (length (USERS ?s)) (map fst (USERS ?s')) = map fst (USERS ?s)"
    by (simp add: ks)
  have old: "take (length (USERS ?s)) (user_ids ?s') = user_ids ?s"
    by (simp only: ids ids' take_sequential_ids [OF le])
  have "distinct (user_ids ?s)"
    by (simp only: ids distinct_sequential_ids)
  with ids keys old run_distinct_keys [of u rs] show ?thesis
    by (intro conjI)
qed

theorem user_ids_sequential_witness:
  "user_ids (run ascii_db init [(1000, Register alice), (1000, Login bob), (2000, Login bob)])
     = [asc ''user_1'', asc ''user_2'']
   \<and> map fst (USERS (run ascii_db init [(1000, Register alice), (1000, Login bob), (2000, Login bob)]))
     = [asc ''alice@example.com'', asc ''bob@example.com'']"
proof -
  let ?rs = "[(1000, Register alice), (1000, Login bob), (2000, Login bob)]"
  have keys: "map fst (USERS (run ascii_db init ?rs)) = [asc ''alice@example.com'', asc ''bob@example.com'']"
    by (simp add: run_def register_alice) (simp add: bob_def handler_eval string_eval)
  then have "length (map fst (USERS (run ascii_db init ?rs))) = 2"
    by simp
  then have len: "length (USERS (run ascii_db init ?rs)) = 2"
    by simp
  have two: "sequential_ids 2 = [asc ''user_1'', asc ''user_2'']"
    by (simp add: sequential_ids_def upt_rec string_eval)
  from user_ids_sequential [of ascii_db ?rs "[]"] keys show ?thesis
    by (simp only: len two)
qed

section \<open>Registration\<close>

text \<open>
  C3. \<open>register\<close> fails with status 409 and detail "User already exists" exactly when the
  email is already a key of the user store, and then leaves both stores as they were.
  For an email that is not yet a key it succeeds: the record it stores and returns has
  the supplied name and the plan "Free", and the token it returns is in the token store
  for that email.
\<close>

theorem register_conflict_iff:
  "(snd (register s now d) = Inl (HTTPException 409 (asc ''User already exists''))
      \<longleftrightarrow> reg_email d \<in> fst ` set (USERS s))
   \<and> (reg_email d \<in> fst ` set (USERS s) \<longrightarrow> fst (register s now d) = s)
   \<and> (reg_email d \<notin> fst ` set (USERS s) \<longrightarrow>
        (\<exists>token r. snd (register s now d) = Inr (token, r)
           \<and> email r = reg_email d \<and> name r = reg_name d \<and> plan r = asc ''Free''
           \<and> USERS (fst (register s now d)) = USERS s @ [(reg_email d, r)]
           \<and> map_of (USERS (fst (register s now d))) (reg_email d) = Some r
           \<and> map_of (TOKENS (fst (register s now d))) token = Some (reg_email d)))"
proof (cases "reg_email d \<in> fst ` set (USERS s)")
  case True
  then show ?thesis by (simp add: register_conflict)
next
  case False
  then have n: "map_of (USERS s) (reg_email d) = None"
    by (simp add: map_of_eq_None_iff)
  from False show ?thesis
    by (simp add: register_new new_user_def map_of_dict_set map_add_def n)
qed

theorem register_conflict_iff_witness:
  "reg_email alice \<notin> fst ` set (USERS init)
   \<and> reg_email alice \<in> fst ` set (USERS (fst (register init 1000 alice)))
   \<and> snd (register init 1000 alice) \<noteq> Inl (HTTPException 409 (asc ''User already exists''))
   \<and> register (fst (register init 1000 alice)) 2000 alice
       = (fst (register init 1000 alice), Inl (HTTPException 409 (asc ''User already exists'')))"
proof -
  have a: "reg_email alice \<notin> fst ` set (USERS init)"
    by (simp add: init_def)
  have b: "reg_email alice \<in> fst ` set (USERS (fst (register init 1000 alice)))"
    using register_conflict_iff [of init 1000 alice] a by auto
  show ?thesis
    using a b register_conflict_iff [of init 1000 alice]
      register_conflict_iff [of "fst (register init 1000 alice)" 2000 alice]
    by (simp add: prod_eq_iff)
qed

section \<open>Token resolution\<close>

text \<open>
  C4. The claim is that resolution fails exactly when the header is absent, does not
  start with \<open>Bearer \<close>, or names a token that is not a key of the token store.
  \<open>get_email_from_token_Inr\<close> gives the exact condition of success: the stored email must
  also be non-empty, because the handler tests the looked-up email for truth. Below, a
  registration with the empty email succeeds and stores its token, and the request that
  presents this token is rejected with status 401.
\<close>

theorem empty_email_token_rejected:
  "register init 1700000000000
       \<lparr>reg_email = [], reg_password = asc ''pw'', reg_name = asc ''Guest''\<rparr>
     = (\<lparr>USERS = [([], \<lparr>uid = asc ''user_1'', email = [], name = asc ''Guest'',
                        plan = asc ''Free''\<rparr>)],
         TOKENS = [(asc ''demo_1700000000000_'', [])]\<rparr>,
        Inr (asc ''demo_1700000000000_'',
             \<lparr>uid = asc ''user_1'', email = [], name = asc ''Guest'', plan = asc ''Free''\<rparr>))
   \<and> map_of (TOKENS (fst (register init 1700000000000
                 \<lparr>reg_email = [], reg_password = asc ''pw'', reg_name = asc ''Guest''\<rparr>)))
        (asc ''demo_1700000000000_'') = Some []
   \<and> get_email_from_token
        (fst (register init 1700000000000
                 \<lparr>reg_email = [], reg_password = asc ''pw'', reg_name = asc ''Guest''\<rparr>))
        (Some (asc ''Bearer demo_1700000000000_''))
       = Inl (HTTPException 401 (asc ''Invalid token''))
   \<and> me (fst (register init 1700000000000
                 \<lparr>reg_email = [], reg_password = asc ''pw'', reg_name = asc ''Guest''\<rparr>))
        (Some (asc ''Bearer demo_1700000000000_''))
       = Inl (HTTPException 401 (asc ''Invalid token''))"
proof -
  let ?d = "\<lparr>reg_email = [], reg_password = asc ''pw'', reg_name = asc ''Guest''\<rparr>"
  let ?r = "\<lparr>uid = asc ''user_1'', email = [], name = asc ''Guest'', plan = asc ''Free''\<rparr>"
  let ?s = "\<lparr>USERS = [([], ?r)], TOKENS = [(asc ''demo_1700000000000_'', [])]\<rparr>"
  have reg: "register init 1700000000000 ?d = (?s, Inr (asc ''demo_1700000000000_'', ?r))"
    by (simp add: handler_eval string_eval)
  have tok: "map_of (TOKENS ?s) (asc ''demo_1700000000000_'') = Some []"
    by simp
  have res: "get_email_from_token ?s (Some (asc ''Bearer demo_1700000000000_''))
      = Inl (HTTPException 401 (asc ''Invalid token''))"
    by (simp add: handler_eval string_eval)
  then have me: "me ?s (Some (asc ''Bearer demo_1700000000000_''))
      = Inl (HTTPException 401 (asc ''Invalid token''))"
    by (simp add: me_def)
  show ?thesis
    by (simp only: reg tok res me fst_conv simp_thms)
qed

section \<open>Purchase confirmation\<close>

text \<open>
  C5. For a request whose token resolves to a stored user, \<open>purchase_confirm\<close> trims and
  lower-cases the plan of the body. Unless the result is exactly "plus" or "pro" the
  request fails with status 400 and detail "plan must be Plus or Pro" and the state is
  unchanged; otherwise "Plus" or "Pro" is stored as the user's plan and the updated
  record is returned. The body " PLUS " stores "Plus", the body "gold" fails.
\<close>

theorem purchase_confirm_normalizes:
  assumes "get_email_from_token s a = Inr em" and "map_of (USERS s) em = Some r"
  shows
    "(py_lower u (py_strip (purchase_plan d)) \<noteq> asc ''plus''
        \<and> py_lower u (py_strip (purchase_plan d)) \<noteq> asc ''pro'' \<longrightarrow>
          purchase_confirm u s d a = (s, Inl (HTTPException 400 (asc ''plan must be Plus or Pro''))))
     \<and> (py_lower u (py_strip (purchase_plan d)) = asc ''plus'' \<longrightarrow>
          snd (purchase_confirm u s d a) = Inr (r\<lparr>plan := asc ''Plus''\<rparr>)
          \<and> map_of (USERS (fst (purchase_confirm u s d a))) em = Some (r\<lparr>plan := asc ''Plus''\<rparr>))
     \<and> (py_lower u (py_strip (purchase_plan d)) = asc ''pro'' \<longrightarrow>
          snd (purchase_confirm u s d a) = Inr (r\<lparr>plan := asc ''Pro''\<rparr>)
          \<and> map_of (USERS (fst (purchase_confirm u s d a))) em = Some (r\<lparr>plan := asc ''Pro''\<rparr>))
     \<and> (purchase_plan d = asc '' PLUS '' \<longrightarrow>
          snd (purchase_confirm u s d a) = Inr (r\<lparr>plan := asc ''Plus''\<rparr>)
          \<and> map_of (USERS (fst (purchase_confirm u s d a))) em = Some (r\<lparr>plan := asc ''Plus''\<rparr>))
     \<and> (purchase_plan d = asc ''gold'' \<longrightarrow>
          purchase_confirm u s d a = (s, Inl (HTTPException 400 (asc ''plan must be Plus or Pro''))))"
proof -
  have invalid: "purchase_confirm u s d a = (s, Inl (HTTPException 400 (asc ''plan must be Plus or Pro'')))"
    if "py_lower u (py_strip (purchase_plan d)) \<noteq> asc ''plus''"
      and "py_lower u (py_strip (purchase_plan d)) \<noteq> asc ''pro''"
    using assms(1) that by (rule purchase_confirm_invalid)
  have plus: "snd (purchase_confirm u s d a) = Inr (r\<lparr>plan := asc ''Plus''\<rparr>)
      \<and> map_of (USERS (fst (purchase_confirm u s d a))) em = Some (r\<lparr>plan := asc ''Plus''\<rparr>)"
    if "py_lower u (py_strip (purchase_plan d)) = asc ''plus''"
    using purchase_confirm_plus [OF assms that] by (simp add: map_of_dict_set)
  have pro: "snd (purchase_confirm u s d a) = Inr (r\<lparr>plan := asc ''Pro''\<rparr>)
      \<and> map_of (USERS (fst (purchase_confirm u s d a))) em = Some (r\<lparr>plan := asc ''Pro''\<rparr>)"
    if "py_lower u (py_strip (purchase_plan d)) = asc ''pro''"
    using purchase_confirm_pro [OF assms that] by (simp add: map_of_dict_set)
  have gold: "asc ''gold'' \<noteq> asc ''plus''" "asc ''gold'' \<noteq> asc ''pro''"
    by (simp_all add: asc_def)
  show ?thesis
    using invalid plus pro gold by (auto simp: lower_strip_PLUS lower_strip_gold)
qed

theorem purchase_confirm_normalizes_witness:
  "get_email_from_token (fst (register init 1000 alice)) alice_auth = Inr (asc ''alice@example.com'')
   \<and> snd (purchase_confirm ascii_db (fst (register init 1000 alice)) \<lparr>purchase_plan = asc '' PLUS ''\<rparr> alice_auth)
       = Inr \<lparr>uid = asc ''user_1'', email = asc ''alice@example.com'', name = asc ''Alice'',
              plan = asc ''Plus''\<rparr>
   \<and> snd (purchase_confirm ascii_db (fst (register init 1000 alice)) \<lparr>purchase_plan = asc ''pro''\<rparr> alice_auth)
       = Inr \<lparr>uid = asc ''user_1'', email = asc ''alice@example.com'', name = asc ''Alice'',
              plan = asc ''Pro''\<rparr>
   \<and> purchase_confirm ascii_db (fst (register init 1000 alice)) \<lparr>purchase_plan = asc ''gold''\<rparr> alice_auth
       = (fst (register init 1000 alice), Inl (HTTPException 400 (asc ''plan must be Plus or Pro'')))"
proof -
  let ?s = "fst (register init 1000 alice)"
  let ?r = "\<lparr>uid = asc ''user_1'', email = asc ''alice@example.com'', name = asc ''Alice'',
             plan = asc ''Free''\<rparr>"
  have r: "map_of (USERS ?s) (asc ''alice@example.com'') = Some ?r"
    by (simp add: register_alice)
  have pro: "py_lower ascii_db (py_strip (asc ''pro'')) = asc ''pro''"
    by (simp add: string_eval)
  show ?thesis
    using purchase_confirm_normalizes [OF alice_resolves r, of ascii_db "\<lparr>purchase_plan = asc '' PLUS ''\<rparr>"]
      purchase_confirm_normalizes [OF alice_resolves r, of ascii_db "\<lparr>purchase_plan = asc ''pro''\<rparr>"]
      purchase_confirm_normalizes [OF alice_resolves r, of ascii_db "\<lparr>purchase_plan = asc ''gold''\<rparr>"]
    by (simp add: alice_resolves pro)
qed

section \<open>Login\<close>

text \<open>
  C6. The part of the claim about the user store holds (\<open>login_get_or_create\<close>): a known
  email gets its stored record back unchanged, an unknown one gets a new "Guest" record
  with the plan "Free". The claim also says that in both cases a fresh token is issued.
  The token is determined by the clock reading in milliseconds and the email, so a second
  login for the same email within the same millisecond returns the token that is already
  in the token store and leaves both stores as they were. This is the defect of C1, seen
  from \<open>login\<close>.
\<close>

theorem login_token_not_fresh:
  "login init 1700000000000 bob
     = (\<lparr>USERS = [(asc ''bob@example.com'',
                    \<lparr>uid = asc ''user_1'', email = asc ''bob@example.com'',
                     name = asc ''Guest'', plan = asc ''Free''\<rparr>)],
         TOKENS = [(asc ''demo_1700000000000_bob_example.com'', asc ''bob@example.com'')]\<rparr>,
        Inr (asc ''demo_1700000000000_bob_example.com'',
             \<lparr>uid = asc ''user_1'', email = asc ''bob@example.com'',
              name = asc ''Guest'', plan = asc ''Free''\<rparr>))
   \<and> map_of (TOKENS (fst (login init 1700000000000 bob)))
         (asc ''demo_1700000000000_bob_example.com'')
       = Some (asc ''bob@example.com'')
   \<and> login (fst (login init 1700000000000 bob)) 1700000000000 bob
       = (fst (login init 1700000000000 bob),
          Inr (asc ''demo_1700000000000_bob_example.com'',
               \<lparr>uid = asc ''user_1'', email = asc ''bob@example.com'',
                name = asc ''Guest'', plan = asc ''Free''\<rparr>))"
proof -
  let ?r = "\<lparr>uid = asc ''user_1'', email = asc ''bob@example.com'',
             name = asc ''Guest'', plan = asc ''Free''\<rparr>"
  let ?tok = "asc ''demo_1700000000000_bob_example.com''"
  let ?s = "\<lparr>USERS = [(asc ''bob@example.com'', ?r)],
             TOKENS = [(?tok, asc ''bob@example.com'')]\<rparr>"
  have first: "login init 1700000000000 bob = (?s, Inr (?tok, ?r))"
    by (simp add: bob_def handler_eval string_eval)
  have stored: "map_of (TOKENS ?s) ?tok = Some (asc ''bob@example.com'')"
    by simp
  have second: "login ?s 1700000000000 bob = (?s, Inr (?tok, ?r))"
    by (simp add: bob_def handler_eval string_eval)
  show ?thesis
    by (simp only: first stored second fst_conv simp_thms)
qed

section \<open>What purchase confirmation changes\<close>

text \<open>
  C7. A successful \<open>purchase_confirm\<close> replaces the record of the resolved user by one with
  the same id, email and name; the keys of the user store, every other record and the
  token store stay as they were. More generally a stored record keeps its id, email and
  name through any request and any sequence of requests, and a request other than a
  purchase confirmation leaves the record as it is.
\<close>

theorem purchase_changes_only_plan:
  "(purchase_confirm u s d a = (s', Inr r') \<longrightarrow>
      (\<exists>em r. get_email_from_token s a = Inr em \<and> map_of (USERS s) em = Some r
         \<and> uid r' = uid r \<and> email r' = email r \<and> name r' = name r
         \<and> USERS s' = dict_set (USERS s) em r'
         \<and> map fst (USERS s') = map fst (USERS s)
         \<and> (\<forall>k. k \<noteq> em \<longrightarrow> map_of (USERS s') k = map_of (USERS s) k)
         \<and> TOKENS s' = TOKENS s))
   \<and> (map_of (USERS s) k = Some r0 \<longrightarrow>
        (\<exists>r1. map_of (USERS (step u s ev)) k = Some r1
           \<and> uid r1 = uid r0 \<and> email r1 = email r0 \<and> name r1 = name r0
           \<and> ((\<forall>d a. snd ev \<noteq> PurchaseConfirm d a) \<longrightarrow> r1 = r0)))
   \<and> (map_of (USERS s) k = Some r0 \<longrightarrow>
        (\<exists>r1. map_of (USERS (run u s rs)) k = Some r1
           \<and> uid r1 = uid r0 \<and> email r1 = email r0 \<and> name r1 = name r0))"
proof (intro conjI impI)
  assume "purchase_confirm u s d a = (s', Inr r')"
  from purchase_confirm_frame [OF this] obtain em r
    where em: "get_email_from_token s a = Inr em" and r: "map_of (USERS s) em = Some r"
      and r': "r' = r\<lparr>plan := plan r'\<rparr>" and s': "s' = s\<lparr>USERS := dict_set (USERS s) em r'\<rparr>"
    by blast
  from r' have "uid r' = uid (r\<lparr>plan := plan r'\<rparr>)" "email r' = email (r\<lparr>plan := plan r'\<rparr>)"
    "name r' = name (r\<lparr>plan := plan r'\<rparr>)"
    by simp_all
  then have fields: "uid r' = uid r" "email r' = email r" "name r' = name r"
    by simp_all
  have keys: "map fst (USERS s') = map fst (USERS s)"
    using map_of_in_keys [OF r] by (simp add: s' keys_dict_set)
  have others: "\<forall>k. k \<noteq> em \<longrightarrow> map_of (USERS s') k = map_of (USERS s) k"
    by (simp add: s' map_of_dict_set)
  have "USERS s' = dict_set (USERS s) em r'" "TOKENS s' = TOKENS s"
    by (simp_all add: s')
  with em r fields keys others
  show "\<exists>em r. get_email_from_token s a = Inr em \<and> map_of (USERS s) em = Some r
         \<and> uid r' = uid r \<and> email r' = email r \<and> name r' = name r
         \<and> USERS s' = dict_set (USERS s) em r'
         \<and> map fst (USERS s') = map fst (USERS s)
         \<and> (\<forall>k. k \<noteq> em \<longrightarrow> map_of (USERS s') k = map_of (USERS s) k)
         \<and> TOKENS s' = TOKENS s"
    by blast
next
  assume "map_of (USERS s) k = Some r0"
  from step_user_record [OF this, of u ev] obtain r1
    where r1: "map_of (USERS (step u s ev)) k = Some r1" "r1 = r0\<lparr>plan := plan r1\<rparr>"
      "(\<forall>d a. snd ev \<noteq> PurchaseConfirm d a) \<longrightarrow> r1 = r0"
    by blast
  from r1(2) have "uid r1 = uid (r0\<lparr>plan := plan r1\<rparr>)" "email r1 = email (r0\<lparr>plan := plan r1\<rparr>)"
    "name r1 = name (r0\<lparr>plan := plan r1\<rparr>)"
    by simp_all
  then have "uid r1 = uid r0" "email r1 = email r0" "name r1 = name r0"
    by simp_all
  with r1(1,3)
  show "\<exists>r1. map_of (USERS (step u s ev)) k = Some r1
           \<and> uid r1 = uid r0 \<and> email r1 = email r0 \<and> name r1 = name r0
           \<and> ((\<forall>d a. snd ev \<noteq> PurchaseConfirm d a) \<longrightarrow> r1 = r0)"
    by blast
next
  assume "map_of (USERS s) k = Some r0"
  from run_user_record [OF this, of u rs] obtain r1
    where r1: "map_of (USERS (run u s rs)) k = Some r1" "r1 = r0\<lparr>plan := plan r1\<rparr>"
    by blast
  from r1(2) have "uid r1 = uid (r0\<lparr>plan := plan r1\<rparr>)" "email r1 = email (r0\<lparr>plan := plan r1\<rparr>)"
    "name r1 = name (r0\<lparr>plan := plan r1\<rparr>)"
    by simp_all
  then have "uid r1 = uid r0" "email r1 = email r0" "name r1 = name r0"
    by simp_all
  with r1(1)
  show "\<exists>r1. map_of (USERS (run u s rs)) k = Some r1
           \<and> uid r1 = uid r0 \<and> email r1 = email r0 \<and> name r1 = name r0"
    by blast
qed


theorem purchase_changes_only_plan_witness:
  "purchase_confirm ascii_db (fst (register init 1000 alice)) \<lparr>purchase_plan = asc ''Pro''\<rparr> alice_auth
     = (\<lparr>USERS = [(asc ''alice@example.com'',
                    \<lparr>uid = asc ''user_1'', email = asc ''alice@example.com'',
                     name = asc ''Alice'', plan = asc ''Pro''\<rparr>)],
         TOKENS = [(asc ''demo_1000_alice_example.com'', asc ''alice@example.com'')]\<rparr>,
        Inr \<lparr>uid = asc ''user_1'', email = asc ''alice@example.com'',
             name = asc ''Alice'', plan = asc ''Pro''\<rparr>)
   \<and> map_of (USERS (fst (register init 1000 alice))) (asc ''alice@example.com'')
       = Some \<lparr>uid = asc ''user_1'', email = asc ''alice@example.com'',
               name = asc ''Alice'', plan = asc ''Free''\<rparr>
   \<and> map_of (USERS (step ascii_db (fst (register init 1000 alice)) (2000, Login bob)))
         (asc ''alice@example.com'')
       = Some \<lparr>uid = asc ''user_1'', email = asc ''alice@example.com'',
               name = asc ''Alice'', plan = asc ''Free''\<rparr>
   \<and> (\<exists>r1. map_of (USERS (run ascii_db (fst (register init 1000 alice))
                      [(2000, Login bob),
                       (3000, PurchaseConfirm \<lparr>purchase_plan = asc ''Pro''\<rparr> alice_auth)]))
               (asc ''alice@example.com'') = Some r1
           \<and> uid r1 = asc ''user_1'' \<and> email r1 = asc ''alice@example.com''
           \<and> name r1 = asc ''Alice'')"
proof -
  let ?S = "fst (register init 1000 alice)"
  let ?D = "\<lparr>purchase_plan = asc ''Pro''\<rparr>"
  let ?E = "asc ''alice@example.com''"
  let ?R = "\<lparr>uid = asc ''user_1'', email = asc ''alice@example.com'',
             name = asc ''Alice'', plan = asc ''Free''\<rparr>"
  let ?R' = "\<lparr>uid = asc ''user_1'', email = asc ''alice@example.com'',
             name = asc ''Alice'', plan = asc ''Pro''\<rparr>"
  let ?S' = "\<lparr>USERS = [(?E, ?R')],
              TOKENS = [(asc ''demo_1000_alice_example.com'', asc ''alice@example.com'')]\<rparr>"
  let ?rs = "[(2000, Login bob), (3000, PurchaseConfirm ?D alice_auth)]"
  have r: "map_of (USERS ?S) ?E = Some ?R"
    by (simp add: register_alice)
  have lower: "py_lower ascii_db (py_strip (purchase_plan ?D)) = asc ''pro''"
    by (simp add: string_eval)
  have pc: "purchase_confirm ascii_db ?S ?D alice_auth = (?S', Inr ?R')"
    using purchase_confirm_pro [OF alice_resolves r lower] by (simp add: register_alice)
  note t = purchase_changes_only_plan
    [of ascii_db ?S ?D alice_auth ?S' ?R' ?E ?R "(2000, Login bob)" ?rs]
  from t r obtain r1 where "map_of (USERS (step ascii_db ?S (2000, Login bob))) ?E = Some r1"
    and "(\<forall>d a. snd (2000::int, Login bob) \<noteq> PurchaseConfirm d a) \<longrightarrow> r1 = ?R"
    by blast
  then have step: "map_of (USERS (step ascii_db ?S (2000, Login bob))) ?E = Some ?R"
    by simp
  from t r have "\<exists>r1. map_of (USERS (run ascii_db ?S ?rs)) ?E = Some r1
      \<and> uid r1 = uid ?R \<and> email r1 = email ?R \<and> name r1 = name ?R"
    by blast
  then have run: "\<exists>r1. map_of (USERS (run ascii_db ?S ?rs)) ?E = Some r1
      \<and> uid r1 = asc ''user_1'' \<and> email r1 = asc ''alice@example.com'' \<and> name r1 = asc ''Alice''"
    by simp
  from pc r step run show ?thesis
    by (intro conjI)
qed

section \<open>The chat reply\<close>

text \<open>
  C8, as stated for every persona string, fails for the empty string: the handler takes
  the default persona for it, so the reply is "Arkada\<dots> modu: \<dots>" and not the fixed
  text alone, which lower-casing and capitalizing the empty persona would give.
\<close>

theorem chat_send_empty_persona_counterexample:
  "chat_send ascii_db (fst (register init 1000 alice)) (fst (register init 1000 alice))
       \<lparr>message = asc ''hi'', persona = Some []\<rparr> alice_auth
     = Inr \<lparr>sender = asc ''assistant'',
            reply = asc ''Arkada'' @ [351] @ asc '' modu: Mesaj'' @ [305] @ asc ''n'' @ [305] @ asc '' ald'' @ [305] @ asc ''m '' @ [8212]
                    @ asc '' k'' @ [305] @ asc ''sa demo yan'' @ [305] @ asc ''t.'',
            user_plan = asc ''Free''\<rparr>
   \<and> spec_reply ascii_db []
       = asc '' modu: Mesaj'' @ [305] @ asc ''n'' @ [305] @ asc '' ald'' @ [305] @ asc ''m '' @ [8212]
         @ asc '' k'' @ [305] @ asc ''sa demo yan'' @ [305] @ asc ''t.''
   \<and> asc ''Arkada'' @ [351] @ asc '' modu: Mesaj'' @ [305] @ asc ''n'' @ [305] @ asc '' ald'' @ [305] @ asc ''m '' @ [8212]
       @ asc '' k'' @ [305] @ asc ''sa demo yan'' @ [305] @ asc ''t.''
       \<noteq> spec_reply ascii_db []"
proof -
  have r: "map_of (USERS (fst (register init 1000 alice))) (asc ''alice@example.com'')
      = Some \<lparr>uid = asc ''user_1'', email = asc ''alice@example.com'',
              name = asc ''Alice'', plan = asc ''Free''\<rparr>"
    by (simp add: register_alice)
  have cap: "py_capitalize ascii_db (py_lower ascii_db default_persona) = default_persona"
    by (rule capitalize_default_persona) (simp add: ascii_db_def)
  have "chat_send ascii_db (fst (register init 1000 alice)) (fst (register init 1000 alice))
       \<lparr>message = asc ''hi'', persona = Some []\<rparr> alice_auth
     = Inr \<lparr>sender = asc ''assistant'', reply = default_persona @ reply_suffix,
            user_plan = asc ''Free''\<rparr>"
    by (simp add: chat_send_resolved [OF alice_resolves r] cap)
  then have "chat_send ascii_db (fst (register init 1000 alice)) (fst (register init 1000 alice))
       \<lparr>message = asc ''hi'', persona = Some []\<rparr> alice_auth
     = Inr \<lparr>sender = asc ''assistant'',
            reply = asc ''Arkada'' @ [351] @ asc '' modu: Mesaj'' @ [305] @ asc ''n'' @ [305] @ asc '' ald'' @ [305] @ asc ''m '' @ [8212]
                    @ asc '' k'' @ [305] @ asc ''sa demo yan'' @ [305] @ asc ''t.'',
            user_plan = asc ''Free''\<rparr>"
    by (simp add: default_persona_def reply_suffix_def)
  moreover have "spec_reply ascii_db []
      = asc '' modu: Mesaj'' @ [305] @ asc ''n'' @ [305] @ asc '' ald'' @ [305] @ asc ''m '' @ [8212]
        @ asc '' k'' @ [305] @ asc ''sa demo yan'' @ [305] @ asc ''t.''"
    by (simp add: spec_reply_def py_lower_def asc_def)
  moreover have "asc ''Arkada'' @ [351] @ asc '' modu: Mesaj'' @ [305] @ asc ''n'' @ [305] @ asc '' ald'' @ [305] @ asc ''m '' @ [8212]
      @ asc '' k'' @ [305] @ asc ''sa demo yan'' @ [305] @ asc ''t.''
      \<noteq> asc '' modu: Mesaj'' @ [305] @ asc ''n'' @ [305] @ asc '' ald'' @ [305] @ asc ''m '' @ [8212]
        @ asc '' k'' @ [305] @ asc ''sa demo yan'' @ [305] @ asc ''t.''"
    by (simp add: asc_def)
  ultimately show ?thesis by (simp only: simp_thms)
qed

text \<open>
  C8, amended. For a request whose token resolves and whose persona \<open>p\<close> is a non-empty
  string, the reply is \<open>p\<close> lower-cased and capitalized, followed by the text
  " modu: Mesaj\<dots>"; the message does not enter it; \<open>user_plan\<close> is the plan stored in
  \<open>s'\<close>, the state in which the handler resumes after the delay. The persona "kanka" gives
  "Kanka modu: Mesaj\<dots>". When lower-casing is stable, the reply is the one that the
  specification words: the lower-cased persona with its first character capitalized,
  followed by the same text.
\<close>

theorem chat_send_reply:
  assumes "get_email_from_token s a = Inr em" and "map_of (USERS s') em = Some r"
    and "persona payload = Some p" and "p \<noteq> []"
  shows "chat_send u s s' payload a
           = Inr \<lparr>sender = asc ''assistant'',
                  reply = py_capitalize u (py_lower u p)
                    @ asc '' modu: Mesaj'' @ [305] @ asc ''n'' @ [305] @ asc '' ald'' @ [305] @ asc ''m '' @ [8212]
                    @ asc '' k'' @ [305] @ asc ''sa demo yan'' @ [305] @ asc ''t.'',
                  user_plan = plan r\<rparr>
         \<and> (lower_stable u \<longrightarrow>
              chat_send u s s' payload a
                = Inr \<lparr>sender = asc ''assistant'', reply = spec_reply u p,
                       user_plan = plan r\<rparr>)
         \<and> (p = asc ''kanka'' \<longrightarrow>
              chat_send u s s' payload a
                = Inr \<lparr>sender = asc ''assistant'',
                       reply = asc ''Kanka modu: Mesaj'' @ [305] @ asc ''n'' @ [305] @ asc '' ald'' @ [305] @ asc ''m '' @ [8212]
                         @ asc '' k'' @ [305] @ asc ''sa demo yan'' @ [305] @ asc ''t.'',
                       user_plan = plan r\<rparr>)"
proof -
  from assms(3,4) have "(case persona payload of None \<Rightarrow> default_persona
      | Some p \<Rightarrow> if p = [] then default_persona else p) = p"
    by simp
  with chat_send_resolved [OF assms(1,2), of u payload]
  have base: "chat_send u s s' payload a
      = Inr \<lparr>sender = asc ''assistant'',
             reply = py_capitalize u (py_lower u p) @ reply_suffix,
             user_plan = plan r\<rparr>"
    by simp
  have general: "chat_send u s s' payload a
      = Inr \<lparr>sender = asc ''assistant'',
             reply = py_capitalize u (py_lower u p)
               @ asc '' modu: Mesaj'' @ [305] @ asc ''n'' @ [305] @ asc '' ald'' @ [305] @ asc ''m '' @ [8212]
               @ asc '' k'' @ [305] @ asc ''sa demo yan'' @ [305] @ asc ''t.'',
             user_plan = plan r\<rparr>"
    using base by (simp add: reply_suffix_def)
  have spec: "chat_send u s s' payload a
      = Inr \<lparr>sender = asc ''assistant'', reply = spec_reply u p, user_plan = plan r\<rparr>"
    if "lower_stable u"
    using base capitalize_lowered [OF that, of p]
    by (simp add: spec_reply_def reply_suffix_text)
  have kanka: "chat_send u s s' payload a
      = Inr \<lparr>sender = asc ''assistant'',
             reply = asc ''Kanka modu: Mesaj'' @ [305] @ asc ''n'' @ [305] @ asc '' ald'' @ [305] @ asc ''m '' @ [8212]
               @ asc '' k'' @ [305] @ asc ''sa demo yan'' @ [305] @ asc ''t.'',
             user_plan = plan r\<rparr>"
    if "p = asc ''kanka''"
  proof -
    from base that have "chat_send u s s' payload a
        = Inr \<lparr>sender = asc ''assistant'', reply = asc ''Kanka'' @ reply_suffix,
               user_plan = plan r\<rparr>"
      by (simp add: capitalize_kanka)
    then show ?thesis
      by (simp add: reply_suffix_def asc_def)
  qed
  from general spec kanka show ?thesis
    by blast
qed

theorem chat_send_reply_witness:
  "get_email_from_token (fst (register init 1000 alice)) alice_auth = Inr (asc ''alice@example.com'')
   \<and> lower_stable ascii_db
   \<and> chat_send ascii_db (fst (register init 1000 alice))
         (run ascii_db (fst (register init 1000 alice))
            [(2000, PurchaseConfirm \<lparr>purchase_plan = asc ''Pro''\<rparr> alice_auth)])
         \<lparr>message = asc ''hi'', persona = Some (asc ''kanka'')\<rparr> alice_auth
       = Inr \<lparr>sender = asc ''assistant'',
              reply = asc ''Kanka modu: Mesaj'' @ [305] @ asc ''n'' @ [305] @ asc '' ald'' @ [305] @ asc ''m '' @ [8212]
                      @ asc '' k'' @ [305] @ asc ''sa demo yan'' @ [305] @ asc ''t.'',
              user_plan = asc ''Pro''\<rparr>
   \<and> spec_reply ascii_db (asc ''kanka'')
       = asc ''Kanka modu: Mesaj'' @ [305] @ asc ''n'' @ [305] @ asc '' ald'' @ [305] @ asc ''m '' @ [8212]
         @ asc '' k'' @ [305] @ asc ''sa demo yan'' @ [305] @ asc ''t.''"
proof -
  let ?s = "fst (register init 1000 alice)"
  let ?s' = "run ascii_db ?s [(2000, PurchaseConfirm \<lparr>purchase_plan = asc ''Pro''\<rparr> alice_auth)]"
  let ?r = "\<lparr>uid = asc ''user_1'', email = asc ''alice@example.com'',
             name = asc ''Alice'', plan = asc ''Pro''\<rparr>"
  let ?payload = "\<lparr>message = asc ''hi'', persona = Some (asc ''kanka'')\<rparr>"
  let ?kanka = "asc ''Kanka modu: Mesaj'' @ [305] @ asc ''n'' @ [305] @ asc '' ald'' @ [305] @ asc ''m '' @ [8212]
      @ asc '' k'' @ [305] @ asc ''sa demo yan'' @ [305] @ asc ''t.''"
  have r: "map_of (USERS ?s') (asc ''alice@example.com'') = Some ?r"
    by (simp only: purchase_alice_pro) simp
  have p: "persona ?payload = Some (asc ''kanka'')"
    by simp
  have ne: "asc ''kanka'' \<noteq> []"
    by (simp add: asc_def)
  note t = chat_send_reply [OF alice_resolves r p ne, of ascii_db]
  from t have "chat_send ascii_db ?s ?s' ?payload alice_auth
      = Inr \<lparr>sender = asc ''assistant'', reply = ?kanka, user_plan = plan ?r\<rparr>"
    by blast
  then have code: "chat_send ascii_db ?s ?s' ?payload alice_auth
      = Inr \<lparr>sender = asc ''assistant'', reply = ?kanka, user_plan = asc ''Pro''\<rparr>"
    by simp
  from t lower_stable_ascii_db have "chat_send ascii_db ?s ?s' ?payload alice_auth
      = Inr \<lparr>sender = asc ''assistant'', reply = spec_reply ascii_db (asc ''kanka''),
             user_plan = plan ?r\<rparr>"
    by blast
  with code have spec: "spec_reply ascii_db (asc ''kanka'') = ?kanka"
    by simp
  from alice_resolves lower_stable_ascii_db code spec show ?thesis
    by (intro conjI)
qed

section \<open>Tokens belong to users\<close>

text \<open>
  C9. After any sequence of requests from the empty stores, every email that the token
  store holds as a value is a key of the user store. Hence the lookups \<open>USERS[email]\<close>
  that \<open>me\<close>, \<open>purchase_confirm\<close> and \<open>chat_send\<close> make after resolving a token never raise
  \<open>KeyError\<close>; for \<open>chat_send\<close> this holds whatever requests \<open>rs'\<close> are served while it is
  suspended.
\<close>

theorem token_emails_are_users:
  "snd ` set (TOKENS (run u init rs)) \<subseteq> fst ` set (USERS (run u init rs))
   \<and> me (run u init rs) a \<noteq> Inl (KeyError k)
   \<and> snd (purchase_confirm u (run u init rs) d a) \<noteq> Inl (KeyError k)
   \<and> chat_send u (run u init rs) (run u (run u init rs) rs') payload a \<noteq> Inl (KeyError k)"
proof -
  have "snd ` set (TOKENS init) \<subseteq> fst ` set (USERS init)"
    by (simp add: init_def)
  then have known: "snd ` set (TOKENS (run u init rs)) \<subseteq> fst ` set (USERS (run u init rs))"
    by (rule run_tokens_known)
  from known have "me (run u init rs) a \<noteq> Inl (KeyError k)"
    by (rule me_no_KeyError)
  moreover from known have "snd (purchase_confirm u (run u init rs) d a) \<noteq> Inl (KeyError k)"
    by (rule purchase_confirm_no_KeyError)
  moreover from known run_keys_mono
  have "chat_send u (run u init rs) (run u (run u init rs) rs') payload a \<noteq> Inl (KeyError k)"
    by (rule chat_send_no_KeyError)
  ultimately show ?thesis
    using known by (intro conjI)
qed


theorem token_emails_are_users_witness:
  "snd ` set (TOKENS (run ascii_db init [(1000, Register alice)]))
     \<subseteq> fst ` set (USERS (run ascii_db init [(1000, Register alice)]))
   \<and> TOKENS (run ascii_db init [(1000, Register alice)])
       = [(asc ''demo_1000_alice_example.com'', asc ''alice@example.com'')]
   \<and> me (run ascii_db init [(1000, Register alice)]) alice_auth
       \<noteq> Inl (KeyError (asc ''alice@example.com''))
   \<and> snd (purchase_confirm ascii_db (run ascii_db init [(1000, Register alice)])
            \<lparr>purchase_plan = asc ''Pro''\<rparr> alice_auth)
       \<noteq> Inl (KeyError (asc ''alice@example.com''))
   \<and> chat_send ascii_db (run ascii_db init [(1000, Register alice)])
         (run ascii_db (run ascii_db init [(1000, Register alice)]) [(2000, Login bob)])
         \<lparr>message = asc ''hi'', persona = None\<rparr> alice_auth
       \<noteq> Inl (KeyError (asc ''alice@example.com''))"
proof -
  have tokens: "TOKENS (run ascii_db init [(1000, Register alice)])
      = [(asc ''demo_1000_alice_example.com'', asc ''alice@example.com'')]"
    by (simp add: run_def register_alice)
  from token_emails_are_users [of ascii_db "[(1000, Register alice)]" alice_auth
      "asc ''alice@example.com''" "\<lparr>purchase_plan = asc ''Pro''\<rparr>" "[(2000, Login bob)]"
      "\<lparr>message = asc ''hi'', persona = None\<rparr>"] tokens
  show ?thesis
    by (elim conjE) (intro conjI; assumption)
qed

section \<open>The default persona\<close>

text \<open>
  C10. When the persona of a chat request is absent (or null) or the empty string, the
  handler uses the default persona, and the reply is "Arkada\<dots> modu: Mesaj\<dots>", the
  default persona followed by the fixed text. The last letter of the default persona is
  U+015F, a lower-case letter that the Unicode database maps to itself; this is the
  assumption on the database.
\<close>

theorem chat_send_default_persona:
  assumes "lower_full u 351 = [351]"
    and "persona payload = None \<or> persona payload = Some []"
    and "get_email_from_token s a = Inr em" and "map_of (USERS s') em = Some r"
  shows "chat_send u s s' payload a
           = Inr \<lparr>sender = asc ''assistant'',
                  reply = asc ''Arkada'' @ [351] @ asc '' modu: Mesaj'' @ [305] @ asc ''n'' @ [305] @ asc '' ald'' @ [305] @ asc ''m '' @ [8212]
                          @ asc '' k'' @ [305] @ asc ''sa demo yan'' @ [305] @ asc ''t.'',
                  user_plan = plan r\<rparr>"
proof -
  from assms(2) have "(case persona payload of None \<Rightarrow> default_persona
      | Some p \<Rightarrow> if p = [] then default_persona else p) = default_persona"
    by auto
  with chat_send_resolved [OF assms(3,4), of u payload]
  have "chat_send u s s' payload a
      = Inr \<lparr>sender = asc ''assistant'',
             reply = py_capitalize u (py_lower u default_persona) @ reply_suffix,
             user_plan = plan r\<rparr>"
    by simp
  then have "chat_send u s s' payload a
      = Inr \<lparr>sender = asc ''assistant'', reply = default_persona @ reply_suffix,
             user_plan = plan r\<rparr>"
    by (simp only: capitalize_default_persona [OF assms(1)])
  then show ?thesis
    by (simp add: default_persona_def reply_suffix_def)
qed

theorem chat_send_default_persona_witness:
  "lower_full ascii_db 351 = [351]
   \<and> get_email_from_token (fst (register init 1000 alice)) alice_auth
       = Inr (asc ''alice@example.com'')
   \<and> chat_send ascii_db (fst (register init 1000 alice)) (fst (register init 1000 alice))
         \<lparr>message = asc ''hi'', persona = Some []\<rparr> alice_auth
       = Inr \<lparr>sender = asc ''assistant'',
              reply = asc ''Arkada'' @ [351] @ asc '' modu: Mesaj'' @ [305] @ asc ''n'' @ [305] @ asc '' ald'' @ [305] @ asc ''m '' @ [8212]
                      @ asc '' k'' @ [305] @ asc ''sa demo yan'' @ [305] @ asc ''t.'',
              user_plan = asc ''Free''\<rparr>
   \<and> chat_send ascii_db (fst (register init 1000 alice)) (fst (register init 1000 alice))
         \<lparr>message = asc ''hi'', persona = None\<rparr> alice_auth
       = Inr \<lparr>sender = asc ''assistant'',
              reply = asc ''Arkada'' @ [351] @ asc '' modu: Mesaj'' @ [305] @ asc ''n'' @ [305] @ asc '' ald'' @ [305] @ asc ''m '' @ [8212]
                      @ asc '' k'' @ [305] @ asc ''sa demo yan'' @ [305] @ asc ''t.'',
              user_plan = asc ''Free''\<rparr>"
proof -
  let ?s = "fst (register init 1000 alice)"
  let ?r = "\<lparr>uid = asc ''user_1'', email = asc ''alice@example.com'',
             name = asc ''Alice'', plan = asc ''Free''\<rparr>"
  have db: "lower_full ascii_db 351 = [351]"
    by (simp add: ascii_db_def)
  have r: "map_of (USERS ?s) (asc ''alice@example.com'') = Some ?r"
    by (simp add: register_alice)
  have e: "persona \<lparr>message = asc ''hi'', persona = Some []\<rparr> = None
      \<or> persona \<lparr>message = asc ''hi'', persona = Some []\<rparr> = Some []"
    by simp
  have n: "persona \<lparr>message = asc ''hi'', persona = None\<rparr> = None
      \<or> persona \<lparr>message = asc ''hi'', persona = None\<rparr> = Some []"
    by simp
  from chat_send_default_persona [OF db e alice_resolves r]
    chat_send_default_persona [OF db n alice_resolves r] db alice_resolves
  show ?thesis
    by simp
qed

end
